theory Spec2Isabelle
  imports Complex_Main "HOL-Library.Multiset" "HOL-Library.AList"
begin

section \<open>Social bingo: layout generator and participant synchronisation\<close>

text \<open>
  A shallow embedding of the component \<open>SocialBingoApp\<close> of \<open>src/src/App.jsx\<close> (the file
  \<open>src/unnamed/part_000\<close> is a second copy of the same component; where the two differ in
  something a claim depends on, both are modelled). React state is a record \<open>client\<close>, the
  Firestore collections are a record \<open>store\<close>, every handler takes the state it reads and returns
  the state it writes. The results of \<open>Math.random()\<close> are a sequence \<open>rnd\<close> of reals together
  with the number \<open>k\<close> of draws made so far; the server time of a write (\<open>serverTimestamp()\<close>)
  is a parameter \<open>now\<close> of the handler that issues the write.
\<close>

subsection \<open>The layout generator\<close>

definition COLS :: nat where "COLS = 6"
definition ROWS :: nat where "ROWS = 4"
definition TOTAL_CELLS :: nat where "TOTAL_CELLS = COLS * ROWS"

text \<open>
  \<open>rnd k\<close> is the result of the \<open>k\<close>-th call of \<open>Math.random()\<close>; such a sequence is an
  outcome of the random choices when every element lies in \<open>[0, 1)\<close>.
\<close>

type_synonym rng = "nat \<Rightarrow> real"

definition validRng :: "rng \<Rightarrow> bool" where
  "validRng rnd = (\<forall>k. 0 \<le> rnd k \<and> rnd k < 1)"

text \<open>
  \<^verbatim>\<open>Math.floor(Math.random() * (i + 1))\<close>, for the draw \<open>r\<close>. The product is taken
  over the reals. The source multiplies doubles, so for some draws its product is rounded to the
  next integer and the index chosen is the neighbour of the one chosen here; the properties
  below hold for every sequence of draws and use only that the index is at most \<open>i\<close>.
\<close>

definition randomIndex :: "real \<Rightarrow> nat \<Rightarrow> nat" where
  "randomIndex r i = nat \<lfloor>r * real (i + 1)\<rfloor>"

text \<open>\<^verbatim>\<open>[items[i], items[j]] = [items[j], items[i]]\<close>: both reads come before both writes.\<close>

definition swap :: "'a list \<Rightarrow> nat \<Rightarrow> nat \<Rightarrow> 'a list" where
  "swap xs i j = (let a = xs ! j; b = xs ! i in (xs[i := a])[j := b])"

text \<open>
  \<^verbatim>\<open>for (let i = items.length - 1; i > 0; i--) { const j = ...; swap }\<close>: the loop from
  index \<open>i\<close> down to 1, returning the array and the number of draws made.
\<close>

fun fisherYates :: "rng \<Rightarrow> nat \<Rightarrow> nat \<Rightarrow> 'a list \<Rightarrow> 'a list \<times> nat" where
  "fisherYates rnd k 0 xs = (xs, k)"
| "fisherYates rnd k (Suc i) xs =
     (let j = randomIndex (rnd k) (Suc i)
      in fisherYates rnd (Suc k) i (swap xs (Suc i) j))"

definition shuffle :: "rng \<Rightarrow> nat \<Rightarrow> 'a list \<Rightarrow> 'a list \<times> nat" where
  "shuffle rnd k xs = fisherYates rnd k (length xs - 1) xs"

text \<open>
  \<^verbatim>\<open>items.forEach((item, index) => { rows[index % 4].push(item); })\<close> on
  \<^verbatim>\<open>rows = [[], [], [], []]\<close>. A row holds items and, later, gaps (\<open>null\<close>): its
  elements are \<open>string option\<close>.
\<close>

fun distributeFrom :: "nat \<Rightarrow> string list \<Rightarrow> string option list list \<Rightarrow> string option list list" where
  "distributeFrom index [] rows = rows"
| "distributeFrom index (item # items) rows =
     distributeFrom (Suc index) items (rows[index mod 4 := rows ! (index mod 4) @ [Some item]])"

definition distribute :: "string list \<Rightarrow> string option list list" where
  "distribute items = distributeFrom 0 items [[], [], [], []]"

text \<open>\<^verbatim>\<open>while (rowItems.length < COLS) { rowItems.push(null); }\<close>\<close>

function padRow :: "string option list \<Rightarrow> string option list" where
  "padRow rowItems = (if length rowItems < COLS then padRow (rowItems @ [None]) else rowItems)"
  by pat_completeness auto
termination
  by (relation "measure (\<lambda>rowItems. COLS - length rowItems)") auto

declare padRow.simps [simp del]

text \<open>
  \<^verbatim>\<open>rows.forEach(rowItems => { pad; shuffle the row; layout.push(...rowItems); })\<close>,
  with the layout built so far as accumulator.
\<close>

fun fillRows :: "rng \<Rightarrow> nat \<Rightarrow> string option list list \<Rightarrow> string option list \<Rightarrow> string option list \<times> nat" where
  "fillRows rnd k [] layout = (layout, k)"
| "fillRows rnd k (rowItems # rows) layout =
     (let padded = padRow rowItems;
          (shuffled, k') = shuffle rnd k padded
      in fillRows rnd k' rows (layout @ shuffled))"

text \<open>
  The generator inside \<open>handleCreateGame\<close> (from "Shuffle globally" to the end of
  \<^verbatim>\<open>rows.forEach\<close>): the layout and the number of draws made.
\<close>

definition generateLayout :: "rng \<Rightarrow> nat \<Rightarrow> string list \<Rightarrow> string option list \<times> nat" where
  "generateLayout rnd k items =
     (let (shuffled, k') = shuffle rnd k items;
          rows = distribute shuffled
      in fillRows rnd k' rows [])"

subsection \<open>Strings\<close>

text \<open>
  Strings are lists of 8-bit characters. \<open>trim\<close> removes the white space and line terminators
  of JavaScript that exist in this range (tab, line feed, vertical tab, form feed, carriage return,
  space, no-break space) from both ends; \<open>splitLines\<close> splits at line feeds as \<open>split\<close> does, which
  always returns at least one line; \<open>joinWith\<close> is \<^verbatim>\<open>join(sep)\<close> on strings;
  \<open>substring a b\<close> is \<^verbatim>\<open>substring(a, b)\<close> for \<open>a \<le> b\<close>; \<open>showNat\<close> is the decimal
  numeral of a number in a template string.
\<close>

definition isWhiteSpace :: "char \<Rightarrow> bool" where
  "isWhiteSpace c = (c \<in> set [CHR 0x09, CHR 0x0A, CHR 0x0B, CHR 0x0C, CHR 0x0D, CHR 0x20, CHR 0xA0])"

definition trim :: "string \<Rightarrow> string" where
  "trim s = rev (dropWhile isWhiteSpace (rev (dropWhile isWhiteSpace s)))"

fun splitLines :: "string \<Rightarrow> string list" where
  "splitLines [] = [[]]"
| "splitLines (c # cs) =
     (if c = CHR 0x0A then [] # splitLines cs
      else (case splitLines cs of [] \<Rightarrow> [[c]] | l # ls \<Rightarrow> (c # l) # ls))"

fun joinWith :: "string \<Rightarrow> string list \<Rightarrow> string" where
  "joinWith sep [] = []"
| "joinWith sep [x] = x"
| "joinWith sep (x # y # ys) = x @ sep @ joinWith sep (y # ys)"

definition substring :: "nat \<Rightarrow> nat \<Rightarrow> string \<Rightarrow> string" where
  "substring a b s = take (b - a) (drop a s)"

definition digitChar :: "nat \<Rightarrow> char" where
  "digitChar d = char_of (48 + d)"

fun showNat :: "nat \<Rightarrow> string" where
  "showNat n = (if n < 10 then [digitChar n] else showNat (n div 10) @ [digitChar (n mod 10)])"

declare showNat.simps [simp del]

text \<open>The lines of the input that are not blank: \<^verbatim>\<open>filter(line => line.trim() !== '')\<close>.\<close>

definition parseItems :: "string \<Rightarrow> string list" where
  "parseItems inputList = filter (\<lambda>line. trim line \<noteq> []) (splitLines inputList)"

subsection \<open>Documents, store and client state\<close>

text \<open>
  A timestamp is the value of \<open>toMillis()\<close>. A session document is written whole by
  \<open>handleCreateGame\<close>; the feed still guards against a missing \<open>layout\<close> and a missing
  \<open>participantCount\<close>, so these two fields are optional. A participant document can be created by
  a merge write that sets only some fields, and \<open>lastActive\<close> is null in a local snapshot while
  the server time is pending, so all its fields are optional. A layout slot is an item or
  \<open>null\<close>.
\<close>

type_synonym timestamp = int

record game =
  layout :: "string option list option"
  createdAt :: timestamp
  creatorId :: string
  participantCount :: "int option"

record participant =
  name :: "string option"
  checkedIndices :: "nat list option"
  userId :: "string option"
  lastActive :: "timestamp option"

text \<open>
  The collection \<open>games\<close>, keyed by session id, and the participant collections (one per session),
  keyed by session id and user id, as association lists in the order in which a snapshot
  enumerates the documents.
\<close>

record store =
  games :: "(string \<times> game) list"
  participants :: "((string \<times> string) \<times> participant) list"

datatype view = Home | Create | Play

datatype jsError = TypeError

text \<open>
  The state hooks of the component, and the messages shown with \<open>alert\<close>. \<open>user\<close> holds
  \<open>user.uid\<close>, or \<open>None\<close> while no user is signed in.
\<close>

record client =
  user :: "string option"
  view :: view
  gameId :: string
  recentGames :: "(string \<times> game) list"
  inputList :: string
  isCreating :: bool
  gameData :: "game option"
  participantList :: "participant list"
  myParticipantData :: "participant option"
  newName :: string
  isEditingName :: bool
  errorMsg :: string
  alerts :: "string list"

subsection \<open>Sorting an array\<close>

text \<open>
  \<open>Array.prototype.sort\<close> with a comparator: a stable sort that puts \<open>a\<close> before \<open>b\<close> when
  \<open>cmp a b < 0\<close> and keeps the order of elements that compare equal.
\<close>

fun insertBy :: "('a \<Rightarrow> 'a \<Rightarrow> int) \<Rightarrow> 'a \<Rightarrow> 'a list \<Rightarrow> 'a list" where
  "insertBy cmp x [] = [x]"
| "insertBy cmp x (y # ys) = (if cmp x y \<le> 0 then x # y # ys else y # insertBy cmp x ys)"

definition sortBy :: "('a \<Rightarrow> 'a \<Rightarrow> int) \<Rightarrow> 'a list \<Rightarrow> 'a list" where
  "sortBy cmp xs = foldr (insertBy cmp) xs []"

subsection \<open>The store gateway\<close>

text \<open>
  Modelled from the spec: the operations of the real-time document store, a library outside the
  repository (Firestore), following section 4.2 of the specification. \<open>getGame\<close> and
  \<open>getParticipant\<close> are \<open>getDoc\<close>: the document or absence. \<open>setGame\<close> and
  \<open>setParticipant\<close> are \<open>setDoc\<close>: the document is replaced, or created at the end of its
  collection. \<open>mergeParticipant\<close> is \<open>setDoc\<close> with \<open>merge\<close>: the given fields are overlaid
  on the document, which is created when absent. \<open>incrementParticipantCount\<close> is \<open>updateDoc\<close>
  with \<open>increment(1)\<close>: it adds 1 to the field of an existing document, an absent field counting
  as 0, and fails without effect on a missing document. \<open>participantsSnapshot\<close> is a snapshot of
  the participant collection of a session, and \<open>recentGamesQuery\<close> is the result of the query
  \<^verbatim>\<open>orderBy('createdAt', 'desc'), limit(6)\<close> on the sessions.
\<close>

definition getGame :: "store \<Rightarrow> string \<Rightarrow> game option" where
  "getGame s gid = map_of (games s) gid"

definition getParticipant :: "store \<Rightarrow> string \<Rightarrow> string \<Rightarrow> participant option" where
  "getParticipant s gid uid = map_of (participants s) (gid, uid)"

definition setGame :: "store \<Rightarrow> string \<Rightarrow> game \<Rightarrow> store" where
  "setGame s gid g = s\<lparr>games := AList.update gid g (games s)\<rparr>"

definition setParticipant :: "store \<Rightarrow> string \<Rightarrow> string \<Rightarrow> participant \<Rightarrow> store" where
  "setParticipant s gid uid p = s\<lparr>participants := AList.update (gid, uid) p (participants s)\<rparr>"

definition emptyParticipant :: participant where
  "emptyParticipant = \<lparr>name = None, checkedIndices = None, userId = None, lastActive = None\<rparr>"

definition mergeParticipant ::
  "store \<Rightarrow> string \<Rightarrow> string \<Rightarrow> (participant \<Rightarrow> participant) \<Rightarrow> store" where
  "mergeParticipant s gid uid overlay =
     setParticipant s gid uid
       (overlay (case getParticipant s gid uid of None \<Rightarrow> emptyParticipant | Some p \<Rightarrow> p))"

definition incrementParticipantCount :: "store \<Rightarrow> string \<Rightarrow> store" where
  "incrementParticipantCount s gid =
     (case getGame s gid of
        None \<Rightarrow> s
      | Some g \<Rightarrow>
          setGame s gid
            (g\<lparr>participantCount :=
                 Some ((case participantCount g of None \<Rightarrow> 0 | Some n \<Rightarrow> n) + 1)\<rparr>))"

definition participantsSnapshot :: "store \<Rightarrow> string \<Rightarrow> participant list" where
  "participantsSnapshot s gid = map snd (filter (\<lambda>(k, p). fst k = gid) (participants s))"

definition compareCreatedAtDesc :: "string \<times> game \<Rightarrow> string \<times> game \<Rightarrow> int" where
  "compareCreatedAtDesc a b = createdAt (snd b) - createdAt (snd a)"

definition recentGamesQuery :: "store \<Rightarrow> (string \<times> game) list" where
  "recentGamesQuery s = take 6 (sortBy compareCreatedAtDesc (games s))"

subsection \<open>Name generation\<close>

definition ADJECTIVES :: "string list" where
  "ADJECTIVES = [''Funky'', ''Grumpy'', ''Cheeky'', ''Sleepy'', ''Hyper'', ''Happy'', ''Salty'',
     ''Spicy'', ''Lucky'', ''Dizzy'']"

definition COLORS :: "string list" where
  "COLORS = [''Red'', ''Blue'', ''Pink'', ''Neon'', ''Lime'', ''Cosmic'', ''Rusty'', ''Golden'',
     ''Silver'', ''Violet'']"

definition NOUNS :: "string list" where
  "NOUNS = [''Badger'', ''Cactus'', ''Taco'', ''Ninja'', ''Panda'', ''Toaster'', ''Pickle'',
     ''Muffin'', ''Wizard'', ''Goose'']"

text \<open>\<open>generateFunnyName\<close>: four draws, in the order colour, adjective, noun, number.\<close>

definition generateFunnyName :: "rng \<Rightarrow> nat \<Rightarrow> string \<times> nat" where
  "generateFunnyName rnd k =
     (let col = COLORS ! nat \<lfloor>rnd k * real (length COLORS)\<rfloor>;
          adj = ADJECTIVES ! nat \<lfloor>rnd (k + 1) * real (length ADJECTIVES)\<rfloor>;
          noun = NOUNS ! nat \<lfloor>rnd (k + 2) * real (length NOUNS)\<rfloor>;
          num = nat \<lfloor>rnd (k + 3) * 99\<rfloor> + 1
      in (col @ ''-'' @ adj @ ''-'' @ noun @ ''-'' @ showNat num, k + 4))"

subsection \<open>The recent sessions feed\<close>

text \<open>
  The effect "fetch recent games": inactive unless the view is \<open>home\<close>; the snapshot handler
  stores the documents of the query, each with its id. In \<open>src/unnamed/part_000\<close> the effect
  also waits for a signed-in user (\<open>recentGamesEffect_part_000\<close>).
\<close>

definition onRecentGamesSnapshot :: "client \<Rightarrow> (string \<times> game) list \<Rightarrow> client" where
  "onRecentGamesSnapshot c snapshot = c\<lparr>recentGames := snapshot\<rparr>"

definition recentGamesEffect :: "client \<Rightarrow> store \<Rightarrow> client" where
  "recentGamesEffect c s =
     (if view c \<noteq> Home then c else onRecentGamesSnapshot c (recentGamesQuery s))"

definition recentGamesEffect_part_000 :: "client \<Rightarrow> store \<Rightarrow> client" where
  "recentGamesEffect_part_000 c s =
     (if view c \<noteq> Home \<or> user c = None then c
      else onRecentGamesSnapshot c (recentGamesQuery s))"

text \<open>
  \<^verbatim>\<open>filter(x => x)\<close> keeps the truthy slots: not \<open>null\<close> and not the empty string.
  \<open>previewText\<close> is the expression of \<open>src/src/App.jsx\<close>:
  \<^verbatim>\<open>g.layout ? g.layout.filter(x => x).slice(0, 3).join(', ') +
  (g.layout.filter(x => x).length > 3 ? '...' : '') : 'Empty Board'\<close>;
  \<open>previewText_part_000\<close> is the expression of \<open>src/unnamed/part_000\<close>, which appends
  \<^verbatim>\<open>'...'\<close> always (its text for a missing layout has the character \<open>0xED\<close>).
  \<open>shownParticipantCount\<close> is \<^verbatim>\<open>g.participantCount || 0\<close>, and \<open>recentGameCard\<close>
  is what a card of the list shows: id, count, preview.
\<close>

definition truthy :: "string option \<Rightarrow> bool" where
  "truthy x = (case x of None \<Rightarrow> False | Some str \<Rightarrow> str \<noteq> [])"

definition previewText :: "game \<Rightarrow> string" where
  "previewText g =
     (case layout g of
        Some l \<Rightarrow>
          joinWith '', '' (take 3 (map the (filter truthy l)))
            @ (if length (filter truthy l) > 3 then ''...'' else [])
      | None \<Rightarrow> ''Empty Board'')"

definition previewText_part_000 :: "game \<Rightarrow> string" where
  "previewText_part_000 g =
     (case layout g of
        Some l \<Rightarrow> joinWith '', '' (take 3 (map the (filter truthy l))) @ ''...''
      | None \<Rightarrow> ''Vac'' @ [CHR 0xED] @ ''o'')"

definition shownParticipantCount :: "game \<Rightarrow> int" where
  "shownParticipantCount g =
     (case participantCount g of None \<Rightarrow> 0 | Some n \<Rightarrow> if n = 0 then 0 else n)"

definition recentGameCard :: "string \<times> game \<Rightarrow> string \<times> int \<times> string" where
  "recentGameCard e = (fst e, shownParticipantCount (snd e), previewText (snd e))"

subsection \<open>Session creation\<close>

text \<open>
  \<open>handleCreateGame\<close>. \<open>toString36\<close> stands for \<^verbatim>\<open>Number.prototype.toString(36)\<close>,
  and \<open>writeOk\<close> tells whether the store accepts the write (\<open>setDoc\<close> resolves) or the
  \<open>catch\<close> branch runs. The result is the client state, the store and the number of draws made.
  A missing user makes \<open>user.uid\<close> throw inside the \<open>try\<close>, which the \<open>catch\<close> branch
  handles like a store error.
\<close>

definition handleCreateGame ::
  "rng \<Rightarrow> (real \<Rightarrow> string) \<Rightarrow> timestamp \<Rightarrow> bool \<Rightarrow> client \<Rightarrow> store \<Rightarrow> nat
     \<Rightarrow> client \<times> store \<times> nat" where
  "handleCreateGame rnd toString36 now writeOk c s k =
     (if trim (inputList c) = [] then (c, s, k)
      else
        let items = parseItems (inputList c) in
        if length items < 10 \<or> length items > 20
        then (c\<lparr>alerts := alerts c @ [''Please enter between 10 and 20 items.'']\<rparr>, s, k)
        else
          let (layout, k') = generateLayout rnd k items;
              newGameId = substring 2 9 (toString36 (rnd k'))
          in (case user c of
                Some uid \<Rightarrow>
                  if writeOk
                  then (c\<lparr>isCreating := False, gameId := newGameId, view := Play\<rparr>,
                        setGame s newGameId
                          \<lparr>layout = Some layout, createdAt = now, creatorId = uid,
                           participantCount = Some 0\<rparr>,
                        Suc k')
                  else (c\<lparr>isCreating := False,
                          errorMsg := ''Failed to create game. Try again.''\<rparr>, s, Suc k')
              | None \<Rightarrow>
                  (c\<lparr>isCreating := False,
                     errorMsg := ''Failed to create game. Try again.''\<rparr>, s, Suc k')))"

text \<open>
  \<open>handleCreateGame\<close> of \<open>src/unnamed/part_000\<close>: the same but for the \<open>catch\<close> branch, which
  shows an alert (its text has the character \<open>0xBF\<close>) and leaves \<open>errorMsg\<close> alone.
\<close>

definition handleCreateGame_part_000 ::
  "rng \<Rightarrow> (real \<Rightarrow> string) \<Rightarrow> timestamp \<Rightarrow> bool \<Rightarrow> client \<Rightarrow> store \<Rightarrow> nat
     \<Rightarrow> client \<times> store \<times> nat" where
  "handleCreateGame_part_000 rnd toString36 now writeOk c s k =
     (if trim (inputList c) = [] then (c, s, k)
      else
        let items = parseItems (inputList c) in
        if length items < 10 \<or> length items > 20
        then (c\<lparr>alerts := alerts c @ [''Please enter between 10 and 20 items.'']\<rparr>, s, k)
        else
          let (layout, k') = generateLayout rnd k items;
              newGameId = substring 2 9 (toString36 (rnd k'));
              failed = c\<lparr>isCreating := False,
                         alerts := alerts c @
                           [''Error al crear. '' @ [CHR 0xBF] @
                            ''Has habilitado Firestore Database en la consola?'']\<rparr>
          in (case user c of
                Some uid \<Rightarrow>
                  if writeOk
                  then (c\<lparr>isCreating := False, gameId := newGameId, view := Play\<rparr>,
                        setGame s newGameId
                          \<lparr>layout = Some layout, createdAt = now, creatorId = uid,
                           participantCount = Some 0\<rparr>,
                        Suc k')
                  else (failed, s, Suc k')
              | None \<Rightarrow> (failed, s, Suc k')))"

subsection \<open>Joining and observing a session\<close>

text \<open>The effect "fetch game data" and its snapshot handler.\<close>

definition gameSnapshot :: "client \<Rightarrow> game option \<Rightarrow> client" where
  "gameSnapshot c docSnap =
     (case docSnap of
        Some d \<Rightarrow> c\<lparr>gameData := Some d, errorMsg := []\<rparr>
      | None \<Rightarrow> c\<lparr>errorMsg := ''Game not found.'', gameData := None\<rparr>)"

definition gameEffect :: "client \<Rightarrow> store \<Rightarrow> client" where
  "gameEffect c s =
     (if view c \<noteq> Play \<or> gameId c = [] \<or> user c = None then c
      else gameSnapshot c (getGame s (gameId c)))"

text \<open>
  The first half of the effect "fetch/create my participant entry": after the guard
  \<^verbatim>\<open>if (!gameId || !user || !gameData) return;\<close> the participant document is read
  and, if it does not exist, written with a generated name, an empty \<open>checkedIndices\<close> and the
  server time, and the session's counter is incremented. The steps run one after the other,
  with no other client writing in between.
\<close>

definition ensureJoined :: "rng \<Rightarrow> timestamp \<Rightarrow> client \<Rightarrow> store \<Rightarrow> nat \<Rightarrow> store \<times> nat" where
  "ensureJoined rnd now c s k =
     (if gameId c = [] \<or> gameData c = None then (s, k)
      else
        (case user c of
           None \<Rightarrow> (s, k)
         | Some uid \<Rightarrow>
             (case getParticipant s (gameId c) uid of
                Some snap \<Rightarrow> (s, k)
              | None \<Rightarrow>
                  let (initialName, k') = generateFunnyName rnd k;
                      s1 = setParticipant s (gameId c) uid
                             \<lparr>name = Some initialName, checkedIndices = Some [],
                              userId = Some uid, lastActive = Some now\<rparr>;
                      s2 = incrementParticipantCount s1 (gameId c)
                  in (s2, k'))))"

text \<open>
  The comparator of the presence ordering:
  \<^verbatim>\<open>const timeA = a.lastActive?.toMillis() || 0; const timeB = ...; return timeB - timeA;\<close>
\<close>

definition millisOr0 :: "participant \<Rightarrow> int" where
  "millisOr0 p = (case lastActive p of None \<Rightarrow> 0 | Some t \<Rightarrow> if t = 0 then 0 else t)"

definition compareLastActive :: "participant \<Rightarrow> participant \<Rightarrow> int" where
  "compareLastActive a b = (let timeA = millisOr0 a; timeB = millisOr0 b in timeB - timeA)"

text \<open>
  The second half of the effect, the handler of a snapshot of all participants of the session:
  every document is collected; a document of the user becomes \<open>myParticipantData\<close>, and its name
  becomes \<open>newName\<close> when no name was being edited or entered (\<open>setName\<close>); the documents,
  sorted by the comparator, become the list shown. The handler is a closure of the effect: it
  reads \<open>user\<close>, \<open>isEditingName\<close> and \<open>newName\<close> from the state \<open>eff\<close> in which the effect
  was set up (the effect is set up again only when \<open>gameId\<close>, \<open>user\<close> or \<open>gameData\<close> change),
  and its state setters act on the current state \<open>c\<close>.
\<close>

fun scanParticipants :: "string \<Rightarrow> bool \<Rightarrow> client \<Rightarrow> participant list \<Rightarrow> client" where
  "scanParticipants uid setName c [] = c"
| "scanParticipants uid setName c (d # docs) =
     (if userId d = Some uid
      then scanParticipants uid setName
             (c\<lparr>myParticipantData := Some d,
                newName := (if setName then (case name d of None \<Rightarrow> [] | Some n \<Rightarrow> n)
                            else newName c)\<rparr>)
             docs
      else scanParticipants uid setName c docs)"

definition participantsSnapshotHandler :: "client \<Rightarrow> client \<Rightarrow> participant list \<Rightarrow> client" where
  "participantsSnapshotHandler eff c snapshot =
     (case user eff of
        None \<Rightarrow> c
      | Some uid \<Rightarrow>
          (scanParticipants uid (\<not> isEditingName eff \<and> newName eff = []) c snapshot)
            \<lparr>participantList := sortBy compareLastActive snapshot\<rparr>)"

subsection \<open>Toggling a cell\<close>

text \<open>
  \<open>checksOrEmpty\<close> is \<^verbatim>\<open>myParticipantData.checkedIndices || []\<close>. In \<open>toggleCell\<close>
  the guard \<^verbatim>\<open>!myParticipantData || gameData.layout[index] === null\<close> reads the layout
  only when the own record is there; reading it from a null \<open>gameData\<close> or a missing layout
  throws a \<open>TypeError\<close>; an index outside the layout reads \<open>undefined\<close>, which is not
  \<open>null\<close>. The write is a merge of \<open>checkedIndices\<close> and \<open>lastActive\<close>.
\<close>

definition checksOrEmpty :: "participant \<Rightarrow> nat list" where
  "checksOrEmpty p = (case checkedIndices p of None \<Rightarrow> [] | Some cs \<Rightarrow> cs)"

definition toggleCell :: "client \<Rightarrow> store \<Rightarrow> timestamp \<Rightarrow> nat \<Rightarrow> jsError + store" where
  "toggleCell c s now index =
     (case myParticipantData c of
        None \<Rightarrow> Inr s
      | Some me \<Rightarrow>
          (case gameData c of
             None \<Rightarrow> Inl TypeError
           | Some g \<Rightarrow>
               (case layout g of
                  None \<Rightarrow> Inl TypeError
                | Some l \<Rightarrow>
                    if index < length l \<and> l ! index = None then Inr s
                    else
                      let currentChecks = checksOrEmpty me;
                          newChecks = (if index \<in> set currentChecks
                                       then filter (\<lambda>i. i \<noteq> index) currentChecks
                                       else currentChecks @ [index])
                      in (case user c of
                            None \<Rightarrow> Inl TypeError
                          | Some uid \<Rightarrow>
                              Inr (mergeParticipant s (gameId c) uid
                                     (\<lambda>p. p\<lparr>checkedIndices := Some newChecks,
                                             lastActive := Some now\<rparr>))))))"

subsection \<open>Notions of the specification\<close>

text \<open>
  The invariant of \<open>checkedIndices\<close> as the specification words it: a set (no index twice) of
  valid indices into the 24-slot layout, each on a non-gap slot.
\<close>

definition checkedIndicesInv :: "string option list \<Rightarrow> nat list \<Rightarrow> bool" where
  "checkedIndicesInv l checks =
     (distinct checks \<and> (\<forall>i \<in> set checks. i < TOTAL_CELLS \<and> i < length l \<and> l ! i \<noteq> None))"

text \<open>
  The recency of a record as the specification words it: its \<open>lastActive\<close>, a record lacking the
  value counting as the oldest; the least epoch time in milliseconds is 0.
\<close>

definition recency :: "participant \<Rightarrow> int" where
  "recency p = (case lastActive p of None \<Rightarrow> 0 | Some t \<Rightarrow> t)"

text \<open>
  The preview as the specification words it: the first 3 non-gap layout items joined by a
  separator, with a truncation marker if more exist.
\<close>

definition nonGapItems :: "string option list \<Rightarrow> string list" where
  "nonGapItems l = map the (filter (\<lambda>cell. cell \<noteq> None) l)"

definition previewSpec :: "string option list \<Rightarrow> string" where
  "previewSpec l =
     joinWith '', '' (take 3 (nonGapItems l)) @ (if 3 < length (nonGapItems l) then ''...'' else [])"

text \<open>
  The preview as the code computes it, said without the array operations: the items shown are
  the slots that are neither gaps nor empty strings, and the marker follows when there are more
  than 3 of them.
\<close>

fun shownItems :: "string option list \<Rightarrow> string list" where
  "shownItems [] = []"
| "shownItems (None # l) = shownItems l"
| "shownItems (Some x # l) = (if x = [] then shownItems l else x # shownItems l)"

definition previewShown :: "string option list \<Rightarrow> string" where
  "previewShown l =
     joinWith '', '' (take 3 (shownItems l)) @ (if 3 < length (shownItems l) then ''...'' else [])"


subsection \<open>A concrete session\<close>

text \<open>
  The layout that the generator returns for the items \<open>a\<close> to \<open>j\<close> when every draw is \<open>1/2\<close>,
  a session with it, a second user who joins it, and other states used as examples.
\<close>

definition demoLayout :: "string option list" where
  "demoLayout =
     [Some ''a'', None, Some ''c'', None, Some ''e'', None,
      Some ''j'', None, Some ''g'', None, Some ''f'', None,
      Some ''b'', None, Some ''d'', None, None, None,
      Some ''h'', None, Some ''i'', None, None, None]"

definition demoGame :: game where
  "demoGame = \<lparr>layout = Some demoLayout, createdAt = 1000, creatorId = ''u1'',
     participantCount = Some 0\<rparr>"

definition demoStore :: store where
  "demoStore = \<lparr>games = [(''abcdefg'', demoGame)], participants = []\<rparr>"

definition demoClient :: client where
  "demoClient = \<lparr>user = Some ''u2'', view = Play, gameId = ''abcdefg'', recentGames = [],
     inputList = [], isCreating = False, gameData = Some demoGame, participantList = [],
     myParticipantData = None, newName = [], isEditingName = False, errorMsg = [],
     alerts = []\<rparr>"

definition demoJoinedStore :: store where
  "demoJoinedStore = fst (ensureJoined (\<lambda>k. 0) 2000 demoClient demoStore 0)"

definition demoJoinedClient :: client where
  "demoJoinedClient =
     participantsSnapshotHandler demoClient demoClient (participantsSnapshot demoJoinedStore ''abcdefg'')"

definition demoRecord :: "nat list \<Rightarrow> timestamp \<Rightarrow> participant" where
  "demoRecord checks t = \<lparr>name = Some ''Red-Funky-Badger-1'', checkedIndices = Some checks,
     userId = Some ''u2'', lastActive = Some t\<rparr>"

definition demoStoreWith :: "participant \<Rightarrow> store" where
  "demoStoreWith p = \<lparr>games = [(''abcdefg'', demoGame\<lparr>participantCount := Some 1\<rparr>)],
     participants = [((''abcdefg'', ''u2''), p)]\<rparr>"

definition demoParticipants :: "participant list" where
  "demoParticipants =
     [\<lparr>name = Some ''A'', checkedIndices = Some [], userId = Some ''a'', lastActive = Some 1000\<rparr>,
      \<lparr>name = Some ''B'', checkedIndices = Some [2], userId = Some ''b'', lastActive = Some 2000\<rparr>,
      \<lparr>name = Some ''C'', checkedIndices = None, userId = Some ''c'', lastActive = None\<rparr>]"

definition demoFeedStore :: store where
  "demoFeedStore =
     \<lparr>games = map (\<lambda>n. (''game'' @ showNat n, demoGame\<lparr>createdAt := int n\<rparr>)) [3, 7, 1, 5, 2, 6, 4],
      participants = []\<rparr>"

definition demoSmallGame :: game where
  "demoSmallGame = \<lparr>layout = Some [Some ''x'', None, Some ''y''], createdAt = 1, creatorId = ''u1'',
     participantCount = None\<rparr>"

definition demoEmptyItemGame :: game where
  "demoEmptyItemGame = \<lparr>layout = Some [Some ''x'', Some [], Some ''y'', Some ''z''], createdAt = 2,
     creatorId = ''u1'', participantCount = None\<rparr>"

definition demoBlankClient :: client where
  "demoBlankClient = demoClient\<lparr>view := Create, inputList := [CHR 0x20, CHR 0x0A, CHR 0x09]\<rparr>"

definition demoShortClient :: client where
  "demoShortClient = demoClient\<lparr>view := Create, inputList := ''a\<newline>b''\<rparr>"

section \<open>Properties\<close>

subsection \<open>The layout generator\<close>

lemma rr_hit:
  fixes n r :: nat
  assumes "r = n mod 4"
  shows "(n + 3 - r) div 4 = n div 4" and "(n + 1 + 3 - r) div 4 = Suc (n div 4)"
    and "4 * (n div 4) + r = n"
proof -
  define q where "q = n div 4"
  have n: "n = 4 * q + r" unfolding q_def assms by simp
  have "n + 3 - r = 4 * q + 3" "n + 1 + 3 - r = 4 * (q + 1)" by (simp_all add: n)
  then have "(n + 3 - r) div 4 = q" "(n + 1 + 3 - r) div 4 = Suc q" by simp_all
  then show "(n + 3 - r) div 4 = n div 4" and "(n + 1 + 3 - r) div 4 = Suc (n div 4)"
    by (simp_all add: q_def)
  show "4 * (n div 4) + r = n" using n by (simp add: q_def)
qed

lemma rr_miss:
  fixes n r :: nat
  assumes "r < 4" "r \<noteq> n mod 4"
  shows "(n + 1 + 3 - r) div 4 = (n + 3 - r) div 4"
proof -
  define q where "q = n div 4"
  define s where "s = n mod 4"
  have n: "n = 4 * q + s" and s: "s < 4" unfolding q_def s_def by simp_all
  show ?thesis
  proof (cases "s < r")
    case True
    then have e1: "n + 1 + 3 - r = (s + 4 - r) + q * 4" and e2: "n + 3 - r = (s + 3 - r) + q * 4"
      and b: "s + 4 - r < 4" "s + 3 - r < 4" using assms(1) s by (simp_all add: n)
    have "(n + 1 + 3 - r) div 4 = q" unfolding e1 using b by simp
    moreover have "(n + 3 - r) div 4 = q" unfolding e2 using b by simp
    ultimately show ?thesis by simp
  next
    case False
    with assms(2) have "r < s" by (simp add: s_def)
    then have e1: "n + 1 + 3 - r = (s - r) + (q + 1) * 4" and e2: "n + 3 - r = (s - r - 1) + (q + 1) * 4"
      and b: "s - r < 4" "s - r - 1 < 4" using assms(1) s by (simp_all add: n)
    have "(n + 1 + 3 - r) div 4 = q + 1" unfolding e1 using b by simp
    moreover have "(n + 3 - r) div 4 = q + 1" unfolding e2 using b by simp
    ultimately show ?thesis by simp
  qed
qed

lemma rr_lt:
  fixes n r m :: nat
  assumes "r < 4" "m < (n + 3 - r) div 4"
  shows "4 * m + r < n"
proof -
  have "Suc m \<le> (n + 3 - r) div 4" using assms(2) by simp
  then have "Suc m * 4 \<le> n + 3 - r" by (simp only: less_eq_div_iff_mult_less_eq zero_less_numeral)
  then show ?thesis using assms(1) by simp
qed

lemma randomIndex_le: "0 \<le> r \<Longrightarrow> r < 1 \<Longrightarrow> randomIndex r i \<le> i"
proof -
  assume r: "0 \<le> r" "r < 1"
  have "r * real (i + 1) < real (i + 1)" using r by simp
  then have "\<lfloor>r * real (i + 1)\<rfloor> < int (i + 1)" by (simp add: floor_less_iff)
  then show ?thesis unfolding randomIndex_def by linarith
qed

lemma mset_swap': "i < length xs \<Longrightarrow> j < length xs \<Longrightarrow> mset (swap xs i j) = mset xs"
  unfolding swap_def Let_def by (simp add: mset_swap)

lemma length_swap [simp]: "length (swap xs i j) = length xs"
  by (simp add: swap_def Let_def)

lemma mset_fisherYates:
  "validRng rnd \<Longrightarrow> i < length xs \<Longrightarrow> mset (fst (fisherYates rnd k i xs)) = mset xs"
proof (induction i arbitrary: k xs)
  case 0
  then show ?case by simp
next
  case (Suc i)
  have "randomIndex (rnd k) (Suc i) \<le> Suc i"
    using Suc.prems(1) by (simp add: validRng_def randomIndex_le)
  then have "mset (swap xs (Suc i) (randomIndex (rnd k) (Suc i))) = mset xs"
    using Suc.prems(2) by (intro mset_swap') auto
  moreover have "i < length (swap xs (Suc i) (randomIndex (rnd k) (Suc i)))"
    using Suc.prems(2) by simp
  ultimately show ?case
    using Suc.IH [OF Suc.prems(1), of "swap xs (Suc i) (randomIndex (rnd k) (Suc i))" "Suc k"]
    by (simp add: Let_def)
qed

lemma snd_fisherYates: "snd (fisherYates rnd k i xs) = k + i"
  by (induction i arbitrary: k xs) (simp_all add: Let_def)

lemma mset_shuffle: "validRng rnd \<Longrightarrow> mset (fst (shuffle rnd k xs)) = mset xs"
proof (cases xs)
  case Nil
  then show ?thesis by (simp add: shuffle_def)
next
  case (Cons x ys)
  assume "validRng rnd"
  then show ?thesis unfolding shuffle_def
    by (rule mset_fisherYates) (simp add: Cons)
qed

lemma length_shuffle: "validRng rnd \<Longrightarrow> length (fst (shuffle rnd k xs)) = length xs"
  using mset_shuffle [of rnd k xs] by (metis size_mset)

lemma distributeFrom_snoc:
  "distributeFrom index (xs @ [x]) rows =
     (let rs = distributeFrom index xs rows; r = (index + length xs) mod 4
      in rs[r := rs ! r @ [Some x]])"
  by (induction xs arbitrary: index rows) (simp_all add: Let_def)

lemma distribute_snoc:
  "distribute (xs @ [x]) =
     (distribute xs)[length xs mod 4 := distribute xs ! (length xs mod 4) @ [Some x]]"
  by (simp add: distribute_def distributeFrom_snoc Let_def)

lemma length_distribute [simp]: "length (distribute xs) = 4"
  by (induction xs rule: rev_induct) (simp_all add: distribute_def distribute_snoc [unfolded distribute_def])

lemma distribute_row:
  "r < 4 \<Longrightarrow>
   distribute xs ! r = map (\<lambda>m. Some (xs ! (4 * m + r))) [0..<(length xs + 3 - r) div 4]"
proof (induction xs rule: rev_induct)
  case Nil
  have "r = 0 \<or> r = 1 \<or> r = 2 \<or> r = 3" using Nil by linarith
  then show ?case by (auto simp: distribute_def)
next
  case (snoc x xs)
  let ?n = "length xs"
  have lt: "\<And>m. m < (?n + 3 - r) div 4 \<Longrightarrow> 4 * m + r < ?n"
    using snoc.prems by (rule rr_lt)
  have old: "map (\<lambda>m. Some ((xs @ [x]) ! (4 * m + r))) [0..<(?n + 3 - r) div 4]
           = map (\<lambda>m. Some (xs ! (4 * m + r))) [0..<(?n + 3 - r) div 4]"
    using lt by (simp add: nth_append)
  show ?case
  proof (cases "r = ?n mod 4")
    case True
    have c: "(length (xs @ [x]) + 3 - r) div 4 = Suc ((?n + 3 - r) div 4)"
      using rr_hit(1,2) [OF True] by simp
    have n: "4 * ((?n + 3 - r) div 4) + r = ?n"
      using rr_hit(1,3) [OF True] by simp
    have "distribute (xs @ [x]) ! r = distribute xs ! r @ [Some x]"
      using True snoc.prems by (simp add: distribute_snoc)
    also have "\<dots> = map (\<lambda>m. Some (xs ! (4 * m + r))) [0..<(?n + 3 - r) div 4] @ [Some x]"
      using snoc.IH [OF snoc.prems] by simp
    also have "\<dots> = map (\<lambda>m. Some ((xs @ [x]) ! (4 * m + r))) [0..<Suc ((?n + 3 - r) div 4)]"
      using old n by (simp add: nth_append)
    finally show ?thesis by (simp only: c)
  next
    case False
    have c: "(length (xs @ [x]) + 3 - r) div 4 = (?n + 3 - r) div 4"
      using rr_miss [OF snoc.prems False] by simp
    have "distribute (xs @ [x]) ! r = distribute xs ! r"
      using False snoc.prems by (simp add: distribute_snoc)
    also have "\<dots> = map (\<lambda>m. Some ((xs @ [x]) ! (4 * m + r))) [0..<(?n + 3 - r) div 4]"
      using snoc.IH [OF snoc.prems] old by simp
    finally show ?thesis by (simp only: c)
  qed
qed

lemma length_distribute_row:
  "r < 4 \<Longrightarrow> length (distribute xs ! r) = (length xs + 3 - r) div 4"
  by (simp add: distribute_row)

lemma padRow_eq: "padRow rowItems = rowItems @ replicate (COLS - length rowItems) None"
proof (induction rowItems rule: padRow.induct)
  case (1 rowItems)
  show ?case
  proof (cases "length rowItems < COLS")
    case True
    then have "COLS - length rowItems = Suc (COLS - length (rowItems @ [None]))" by simp
    then show ?thesis
      using 1 [OF True] True by (subst padRow.simps) (simp add: replicate_append_same)
  next
    case False
    then show ?thesis by (subst padRow.simps) simp
  qed
qed


lemma mset_fillRows:
  "validRng rnd \<Longrightarrow>
   mset (fst (fillRows rnd k rows acc)) = mset acc + mset (concat (map padRow rows))"
proof (induction rows arbitrary: k acc)
  case Nil
  then show ?case by simp
next
  case (Cons rowItems rows)
  obtain shuffled k' where s: "shuffle rnd k (padRow rowItems) = (shuffled, k')"
    by (cases "shuffle rnd k (padRow rowItems)")
  have "mset shuffled = mset (padRow rowItems)"
    using mset_shuffle [OF Cons.prems, of k "padRow rowItems"] s by simp
  then show ?case
    using Cons.IH [OF Cons.prems, of k' "acc @ shuffled"] s by (simp add: Let_def)
qed

lemma mset_padRows:
  "\<forall>r \<in> set rows. length r \<le> COLS \<Longrightarrow>
   mset (concat (map padRow rows)) =
     mset (concat rows) + mset (replicate (COLS * length rows - length (concat rows)) None)"
proof (induction rows)
  case Nil
  then show ?case by simp
next
  case (Cons r rows)
  have le: "length r \<le> COLS" using Cons.prems by simp
  have "length (concat rows) \<le> COLS * length rows"
    using Cons.prems by (induction rows) auto
  then have e: "COLS * length (r # rows) - length (concat (r # rows)) =
      (COLS - length r) + (COLS * length rows - length (concat rows))"
    using le by simp
  have "mset (concat (map padRow (r # rows))) =
      mset r + mset (replicate (COLS - length r) None) + mset (concat (map padRow rows))"
    by (simp add: padRow_eq del: mset_replicate)
  also have "\<dots> = mset (concat (r # rows)) +
      (mset (replicate (COLS - length r) None) +
       mset (replicate (COLS * length rows - length (concat rows)) None))"
    using Cons by (simp del: mset_replicate)
  also have "mset (replicate (COLS - length r) None) +
       mset (replicate (COLS * length rows - length (concat rows)) None) =
      mset (replicate (COLS * length (r # rows) - length (concat (r # rows))) (None :: string option))"
    unfolding e replicate_add by simp
  finally show ?case .
qed

lemma lt4_cases: "r < 4 \<Longrightarrow> r = 0 \<or> r = 1 \<or> r = 2 \<or> r = 3" for r :: nat
  by linarith

lemma length4_conv: "length rows = 4 \<Longrightarrow> \<exists>r0 r1 r2 r3. rows = [r0, r1, r2, r3]"
  by (auto simp: numeral_eq_Suc length_Suc_conv)

lemma mset_concat_distribute: "mset (concat (distribute xs)) = mset (map Some xs)"
proof (induction xs rule: rev_induct)
  case Nil
  then show ?case by (simp add: distribute_def)
next
  case (snoc x xs)
  obtain r0 r1 r2 r3 where rows: "distribute xs = [r0, r1, r2, r3]"
    using length4_conv [OF length_distribute [of xs]] by blast
  have "length xs mod 4 < 4" by simp
  then have "length xs mod 4 = 0 \<or> length xs mod 4 = 1 \<or> length xs mod 4 = 2 \<or> length xs mod 4 = 3"
    by (rule lt4_cases)
  then show ?case
    using snoc rows by (auto simp: distribute_snoc)
qed

lemma distribute_rows_le:
  assumes "length xs \<le> 24"
  shows "\<forall>r \<in> set (distribute xs). length r \<le> COLS"
proof
  fix row assume "row \<in> set (distribute xs)"
  then obtain r where r: "r < 4" "row = distribute xs ! r"
    by (metis in_set_conv_nth length_distribute)
  have "(length xs + 3 - r) div 4 \<le> (24 + 3) div 4"
    using assms by (intro div_le_mono) simp
  then show "length row \<le> COLS"
    using r by (simp add: length_distribute_row COLS_def)
qed

lemma mset_generateLayout:
  assumes "validRng rnd" "length items \<le> 24"
  shows "mset (fst (generateLayout rnd k items)) =
           mset (map Some items) + mset (replicate (24 - length items) None)"
proof -
  obtain shuffled k' where s: "shuffle rnd k items = (shuffled, k')"
    by (cases "shuffle rnd k items")
  have ms: "mset shuffled = mset items"
    using mset_shuffle [OF assms(1), of k items] s by simp
  then have len: "length shuffled = length items" by (metis size_mset)
  have le: "\<forall>r \<in> set (distribute shuffled). length r \<le> COLS"
    using assms(2) len by (intro distribute_rows_le) simp
  have cat: "length (concat (distribute shuffled)) = length items"
    using mset_concat_distribute [of shuffled] len by (metis size_mset length_map)
  have "mset (fst (generateLayout rnd k items)) =
          mset (concat (map padRow (distribute shuffled)))"
    by (simp add: generateLayout_def s mset_fillRows [OF assms(1)])
  also have "\<dots> = mset (concat (distribute shuffled)) +
          mset (replicate (COLS * 4 - length items) None)"
    using mset_padRows [OF le] cat by (simp del: mset_replicate)
  also have "\<dots> = mset (map Some items) + mset (replicate (24 - length items) None)"
    using ms by (simp add: mset_concat_distribute COLS_def del: mset_replicate)
  finally show ?thesis .
qed



lemma filter_layout_mset:
  assumes "mset L = mset (map Some xs) + mset (replicate m None)"
  shows "mset (filter (\<lambda>cell. cell \<noteq> None) L) = mset (map Some xs)"
    and "mset (filter (\<lambda>cell. cell = None) L) = mset (replicate m None)"
proof -
  have L: "mset L = mset (map Some xs @ replicate m None)"
    using assms by (simp del: mset_replicate mset_map)
  have "mset (filter (\<lambda>cell. cell \<noteq> None) L) =
        mset (filter (\<lambda>cell. cell \<noteq> None) (map Some xs @ replicate m None))"
    unfolding mset_filter L ..
  then show "mset (filter (\<lambda>cell. cell \<noteq> None) L) = mset (map Some xs)"
    by (simp add: filter_map o_def)
  have "mset (filter (\<lambda>cell. cell = None) L) =
        mset (filter (\<lambda>cell. cell = None) (map Some xs @ replicate m None))"
    unfolding mset_filter L ..
  then show "mset (filter (\<lambda>cell. cell = None) L) = mset (replicate m None)"
    by (simp add: filter_map o_def)
qed

lemma floor_div4: "\<lfloor>real n / 4\<rfloor> = int (n div 4)"
  using floor_divide_of_nat_eq [of n 4, where ?'a = real] by simp

lemma ceiling_div4: "\<lceil>real n / 4\<rceil> = int ((n + 3) div 4)"
proof -
  define q where "q = n div 4"
  define r where "r = n mod 4"
  have n: "n = 4 * q + r" and r: "r < 4" unfolding q_def r_def by simp_all
  show ?thesis
  proof (cases "r = 0")
    case True
    then have "real n / 4 = of_int (int q)" by (simp add: n)
    moreover have "(n + 3) div 4 = q" using True by (simp add: n)
    ultimately show ?thesis by (simp only: ceiling_of_int)
  next
    case False
    have e: "n + 3 = (r - 1) + (q + 1) * 4" using False by (simp add: n)
    have d: "(n + 3) div 4 = q + 1" unfolding e using r by simp
    have "real_of_int (int q) < real n / 4" using False by (simp add: n)
    moreover have "real n / 4 \<le> real_of_int (int q) + 1" using r by (simp add: n)
    ultimately have "\<lceil>real n / 4\<rceil> = int q + 1" by (rule ceiling_eq)
    then show ?thesis by (simp add: d)
  qed
qed

lemma row_count_bounds:
  fixes n r :: nat
  assumes "r < 4"
  shows "n div 4 \<le> (n + 3 - r) div 4" and "(n + 3 - r) div 4 \<le> (n + 3) div 4"
    and "(n + 3) div 4 \<le> n div 4 + 1"
proof -
  show "n div 4 \<le> (n + 3 - r) div 4" using assms by (intro div_le_mono) simp
  show "(n + 3 - r) div 4 \<le> (n + 3) div 4" by (intro div_le_mono) simp
  have "(n + 3) div 4 \<le> (n + 4) div 4" by (intro div_le_mono) simp
  then show "(n + 3) div 4 \<le> n div 4 + 1" by simp
qed

lemma distribute_nth:
  assumes "k < length xs"
  shows "distribute xs ! (k mod 4) ! (k div 4) = Some (xs ! k)"
proof -
  define q where "q = k div 4"
  define m where "m = k mod 4"
  have k: "k = 4 * q + m" and r: "m < 4" unfolding q_def m_def by simp_all
  have "Suc q * 4 \<le> length xs + 3 - m" using assms r unfolding k by simp
  then have "Suc q \<le> (length xs + 3 - m) div 4"
    by (simp only: less_eq_div_iff_mult_less_eq zero_less_numeral)
  then have "q < (length xs + 3 - m) div 4" by simp
  then have "distribute xs ! m ! q = Some (xs ! (4 * q + m))"
    unfolding distribute_row [OF r] by simp
  then show ?thesis unfolding q_def m_def by simp
qed

text \<open>
  Claim C1. For every list of \<open>n\<close> items with \<open>10 \<le> n \<le> 20\<close> and every outcome of the
  random draws (every sequence of \<open>Math.random()\<close> results in \<open>[0, 1)\<close>), the layout built at
  session creation has exactly 24 slots, exactly \<open>n\<close> non-gap slots and \<open>24 - n\<close> gap slots, the
  multiset of its non-gap values is the multiset of the items supplied, and each item occurs in
  the layout as often as in the input (exactly once when the items are distinct).
\<close>

theorem generateLayout_places_every_item_once:
  assumes "validRng rnd" and "10 \<le> length items" and "length items \<le> 20"
  shows "length (fst (generateLayout rnd k items)) = 24 \<and>
         length (filter (\<lambda>cell. cell \<noteq> None) (fst (generateLayout rnd k items))) = length items \<and>
         length (filter (\<lambda>cell. cell = None) (fst (generateLayout rnd k items))) = 24 - length items \<and>
         mset (map the (filter (\<lambda>cell. cell \<noteq> None) (fst (generateLayout rnd k items)))) = mset items \<and>
         (\<forall>x. count_list (fst (generateLayout rnd k items)) (Some x) = count_list items x)"
proof -
  let ?L = "fst (generateLayout rnd k items)"
  have M: "mset ?L = mset (map Some items) + mset (replicate (24 - length items) None)"
    using assms(1,3) by (intro mset_generateLayout) simp_all
  have "size (mset ?L) = length items + (24 - length items)"
    unfolding M by simp
  then have len: "length ?L = 24" using assms(3) by simp
  have items: "mset (filter (\<lambda>cell. cell \<noteq> None) ?L) = mset (map Some items)"
    and gaps: "mset (filter (\<lambda>cell. cell = None) ?L) = mset (replicate (24 - length items) None)"
    using filter_layout_mset [OF M] by blast+
  have nitems: "length (filter (\<lambda>cell. cell \<noteq> None) ?L) = length items"
    using items by (metis size_mset length_map)
  have ngaps: "length (filter (\<lambda>cell. cell = None) ?L) = 24 - length items"
    using gaps by (metis size_mset length_replicate)
  have "image_mset the (mset (filter (\<lambda>cell. cell \<noteq> None) ?L)) = image_mset the (mset (map Some items))"
    by (simp only: items)
  then have vals: "mset (map the (filter (\<lambda>cell. cell \<noteq> None) ?L)) = mset items"
    by (simp add: multiset.map_comp o_def)
  have cnt: "\<forall>x. count_list ?L (Some x) = count_list items x"
  proof
    fix x
    have "count (mset ?L) (Some x) = count (mset (map Some items)) (Some x)"
      unfolding M by simp
    also have "\<dots> = count_list (map Some items) (Some x)" by (simp only: count_mset)
    also have "\<dots> = count_list items x" by (induction items) simp_all
    finally show "count_list ?L (Some x) = count_list items x" by (simp only: count_mset)
  qed
  show ?thesis using len nitems ngaps vals cnt by blast
qed

theorem generateLayout_places_every_item_once_witness:
  "validRng (\<lambda>k. 1 / 2) \<and>
   10 \<le> length [''a'', ''b'', ''c'', ''d'', ''e'', ''f'', ''g'', ''h'', ''i'', ''j''] \<and>
   length [''a'', ''b'', ''c'', ''d'', ''e'', ''f'', ''g'', ''h'', ''i'', ''j''] \<le> 20 \<and>
   fst (generateLayout (\<lambda>k. 1 / 2) 0 [''a'', ''b'', ''c'', ''d'', ''e'', ''f'', ''g'', ''h'', ''i'', ''j'']) =
     [Some ''a'', None, Some ''c'', None, Some ''e'', None,
      Some ''j'', None, Some ''g'', None, Some ''f'', None,
      Some ''b'', None, Some ''d'', None, None, None,
      Some ''h'', None, Some ''i'', None, None, None] \<and>
   length (fst (generateLayout (\<lambda>k. 1 / 2) 0
       [''a'', ''b'', ''c'', ''d'', ''e'', ''f'', ''g'', ''h'', ''i'', ''j''])) = 24 \<and>
   length (filter (\<lambda>cell. cell = None) (fst (generateLayout (\<lambda>k. 1 / 2) 0
       [''a'', ''b'', ''c'', ''d'', ''e'', ''f'', ''g'', ''h'', ''i'', ''j'']))) = 14 \<and>
   mset (map the (filter (\<lambda>cell. cell \<noteq> None) (fst (generateLayout (\<lambda>k. 1 / 2) 0
       [''a'', ''b'', ''c'', ''d'', ''e'', ''f'', ''g'', ''h'', ''i'', ''j''])))) =
     mset [''a'', ''b'', ''c'', ''d'', ''e'', ''f'', ''g'', ''h'', ''i'', ''j'']"
proof -
  let ?items = "[''a'', ''b'', ''c'', ''d'', ''e'', ''f'', ''g'', ''h'', ''i'', ''j'']"
  have v: "validRng (\<lambda>k. 1 / 2)" by (simp add: validRng_def)
  have lo: "10 \<le> length ?items" and hi: "length ?items \<le> 20" by simp_all
  have run: "fst (generateLayout (\<lambda>k. 1 / 2) 0 ?items) =
     [Some ''a'', None, Some ''c'', None, Some ''e'', None,
      Some ''j'', None, Some ''g'', None, Some ''f'', None,
      Some ''b'', None, Some ''d'', None, None, None,
      Some ''h'', None, Some ''i'', None, None, None]"
    by code_simp
  have fourteen: "24 - length ?items = 14" by simp
  show ?thesis
    using generateLayout_places_every_item_once [OF v lo hi, of 0] v lo hi run
    by (simp only: fourteen simp_thms)
qed

text \<open>
  Claim C5. For every input size \<open>n\<close> with \<open>10 \<le> n \<le> 20\<close>, the round-robin distribution
  puts the item at position \<open>k\<close> into bucket \<open>k mod 4\<close> (at place \<open>k div 4\<close> there); row \<open>r\<close>
  receives \<open>(n + 3 - r) div 4\<close> items, which is \<open>\<lceil>n/4\<rceil>\<close> or \<open>\<lfloor>n/4\<rfloor>\<close>; two rows differ by at
  most one item; and every row has length exactly 6 after gap padding.
\<close>

theorem distribute_round_robin_balanced:
  assumes "10 \<le> length items" and "length items \<le> 20"
  shows "length (distribute items) = 4 \<and>
         (\<forall>k < length items. distribute items ! (k mod 4) ! (k div 4) = Some (items ! k)) \<and>
         (\<forall>r < 4. length (distribute items ! r) = (length items + 3 - r) div 4) \<and>
         (\<forall>r < 4. int (length (distribute items ! r)) = \<lceil>real (length items) / 4\<rceil> \<or>
                   int (length (distribute items ! r)) = \<lfloor>real (length items) / 4\<rfloor>) \<and>
         (\<forall>r < 4. \<forall>r' < 4. length (distribute items ! r) \<le> length (distribute items ! r') + 1) \<and>
         (\<forall>r < 4. length (padRow (distribute items ! r)) = 6)"
proof -
  let ?n = "length items"
  have rows: "\<And>r. r < 4 \<Longrightarrow> length (distribute items ! r) = (?n + 3 - r) div 4"
    by (rule length_distribute_row)
  have exact: "\<forall>r < 4. length (distribute items ! r) = (?n + 3 - r) div 4"
    using rows by blast
  have either: "\<forall>r < 4. int (length (distribute items ! r)) = \<lceil>real ?n / 4\<rceil> \<or>
                   int (length (distribute items ! r)) = \<lfloor>real ?n / 4\<rfloor>"
  proof (intro allI impI)
    fix r :: nat assume r: "r < 4"
    have "length (distribute items ! r) = (?n + 3) div 4 \<or> length (distribute items ! r) = ?n div 4"
      using row_count_bounds [OF r, of ?n] rows [OF r] by linarith
    then show "int (length (distribute items ! r)) = \<lceil>real ?n / 4\<rceil> \<or>
        int (length (distribute items ! r)) = \<lfloor>real ?n / 4\<rfloor>"
      unfolding ceiling_div4 floor_div4 by simp
  qed
  have diff: "\<forall>r < 4. \<forall>r' < 4. length (distribute items ! r) \<le> length (distribute items ! r') + 1"
  proof (intro allI impI)
    fix r r' :: nat assume r: "r < 4" and r': "r' < 4"
    show "length (distribute items ! r) \<le> length (distribute items ! r') + 1"
      using row_count_bounds [OF r, of ?n] row_count_bounds [OF r', of ?n] rows [OF r] rows [OF r']
      by linarith
  qed
  have pad: "\<forall>r < 4. length (padRow (distribute items ! r)) = 6"
  proof (intro allI impI)
    fix r :: nat assume r: "r < 4"
    have "(?n + 3 - r) div 4 \<le> (20 + 3) div 4"
      using assms(2) by (intro div_le_mono) simp
    then have "length (distribute items ! r) \<le> 6" using rows [OF r] by simp
    then show "length (padRow (distribute items ! r)) = 6"
      by (simp add: padRow_eq COLS_def)
  qed
  show ?thesis using exact either diff pad distribute_nth by simp
qed

theorem distribute_round_robin_balanced_witness:
  "10 \<le> length [''a'', ''b'', ''c'', ''d'', ''e'', ''f'', ''g'', ''h'', ''i'', ''j''] \<and>
   length [''a'', ''b'', ''c'', ''d'', ''e'', ''f'', ''g'', ''h'', ''i'', ''j''] \<le> 20 \<and>
   distribute [''a'', ''b'', ''c'', ''d'', ''e'', ''f'', ''g'', ''h'', ''i'', ''j''] =
     [[Some ''a'', Some ''e'', Some ''i''], [Some ''b'', Some ''f'', Some ''j''],
      [Some ''c'', Some ''g''], [Some ''d'', Some ''h'']] \<and>
   length (padRow (distribute [''a'', ''b'', ''c'', ''d'', ''e'', ''f'', ''g'', ''h'', ''i'', ''j''] ! 2)) = 6"
proof -
  let ?items = "[''a'', ''b'', ''c'', ''d'', ''e'', ''f'', ''g'', ''h'', ''i'', ''j'']"
  have lo: "10 \<le> length ?items" and hi: "length ?items \<le> 20" by simp_all
  have run: "distribute ?items =
     [[Some ''a'', Some ''e'', Some ''i''], [Some ''b'', Some ''f'', Some ''j''],
      [Some ''c'', Some ''g''], [Some ''d'', Some ''h'']]"
    by code_simp
  have "\<forall>r < 4. length (padRow (distribute ?items ! r)) = 6"
    using distribute_round_robin_balanced [OF lo hi] by blast
  then have "length (padRow (distribute ?items ! 2)) = 6" by simp
  then show ?thesis using lo hi run by (simp only: simp_thms)
qed


subsection \<open>Toggling a cell\<close>

lemma getParticipant_setParticipant:
  "getParticipant (setParticipant s gid uid p) gid' uid' =
     (if (gid', uid') = (gid, uid) then Some p else getParticipant s gid' uid')"
  by (simp add: getParticipant_def setParticipant_def update_conv')

lemma getGame_setParticipant [simp]: "getGame (setParticipant s gid uid p) gid' = getGame s gid'"
  by (simp add: getGame_def setParticipant_def)

lemma getGame_setGame:
  "getGame (setGame s gid g) gid' = (if gid' = gid then Some g else getGame s gid')"
  by (simp add: getGame_def setGame_def update_conv')

lemma getParticipant_setGame [simp]:
  "getParticipant (setGame s gid g) gid' uid' = getParticipant s gid' uid'"
  by (simp add: getParticipant_def setGame_def)

lemma getParticipant_mergeParticipant:
  "getParticipant (mergeParticipant s gid uid overlay) gid' uid' =
     (if (gid', uid') = (gid, uid)
      then Some (overlay (case getParticipant s gid uid of None \<Rightarrow> emptyParticipant | Some p \<Rightarrow> p))
      else getParticipant s gid' uid')"
  by (simp add: mergeParticipant_def getParticipant_setParticipant)

lemma toggleCell_writes:
  assumes "user c = Some uid" and "gameData c = Some g" and "layout g = Some l"
    and "i < length l" and "l ! i \<noteq> None" and "myParticipantData c = Some me"
  shows "toggleCell c s now i =
     Inr (mergeParticipant s (gameId c) uid
            (\<lambda>p. p\<lparr>checkedIndices :=
                     Some (if i \<in> set (checksOrEmpty me)
                           then filter (\<lambda>j. j \<noteq> i) (checksOrEmpty me)
                           else checksOrEmpty me @ [i]),
                   lastActive := Some now\<rparr>))"
  using assms by (auto simp add: toggleCell_def Let_def)










text \<open>
  Claim C6. For every client state (whatever participant record it holds) and every index whose
  layout slot is a gap, \<open>toggleCell\<close> returns normally, raising no error, and writes nothing: the
  store, hence the participant's whole record with its marked set and \<open>lastActive\<close>, is unchanged.
\<close>

theorem toggleCell_gap_is_noop:
  assumes "gameData c = Some g" and "layout g = Some l" and "i < length l" and "l ! i = None"
  shows "toggleCell c s now i = Inr s"
  using assms by (simp add: toggleCell_def split: option.splits)

theorem toggleCell_gap_is_noop_witness:
  "gameData demoJoinedClient = Some demoGame \<and> layout demoGame = Some demoLayout \<and>
   1 < length demoLayout \<and> demoLayout ! 1 = None \<and>
   toggleCell demoJoinedClient demoJoinedStore 3000 1 = Inr demoJoinedStore \<and>
   getParticipant demoJoinedStore ''abcdefg'' ''u2'' = Some (demoRecord [] 2000)"
proof -
  have h1: "gameData demoJoinedClient = Some demoGame" by code_simp
  have h2: "layout demoGame = Some demoLayout" by code_simp
  have h3: "1 < length demoLayout" by code_simp
  have h4: "demoLayout ! 1 = None" by code_simp
  have e: "getParticipant demoJoinedStore ''abcdefg'' ''u2'' = Some (demoRecord [] 2000)" by code_simp
  show ?thesis
    by (intro conjI h1 h2 h3 h4 e toggleCell_gap_is_noop [OF h1 h2 h3 h4])
qed

text \<open>
  Claim C10. When the client has not yet observed its own participant record
  (\<open>myParticipantData\<close> is null), \<open>toggleCell\<close> is a silent no-op for every index, also a
  non-gap one: it returns normally and the store is unchanged, so no record is created and no
  \<open>lastActive\<close> is refreshed.
\<close>

theorem toggleCell_before_own_record_is_noop:
  assumes "myParticipantData c = None"
  shows "toggleCell c s now i = Inr s"
  using assms by (simp add: toggleCell_def)

theorem toggleCell_before_own_record_is_noop_witness:
  "myParticipantData demoClient = None \<and> demoLayout ! 2 = Some ''c'' \<and>
   toggleCell demoClient demoStore 3000 2 = Inr demoStore \<and>
   participants demoStore = []"
proof -
  have h: "myParticipantData demoClient = None" by code_simp
  have l: "demoLayout ! 2 = Some ''c''" by code_simp
  have e: "participants demoStore = []" by code_simp
  show ?thesis by (intro conjI h l e toggleCell_before_own_record_is_noop [OF h])
qed


lemma toggleCell_gap_noop_aux:
  assumes "gameData c = Some g" and "layout g = Some l" and "i < length l" and "l ! i = None"
  shows "toggleCell c s now i = Inr s"
  using assms by (simp add: toggleCell_def split: option.splits)

lemma toggled_checks_inv:
  assumes "checkedIndicesInv l cs" and "i < TOTAL_CELLS" and "i < length l" and "l ! i \<noteq> None"
  shows "checkedIndicesInv l (if i \<in> set cs then filter (\<lambda>j. j \<noteq> i) cs else cs @ [i])"
  using assms by (auto simp: checkedIndicesInv_def)

subsection \<open>Joining a session\<close>

lemma participants_setGame [simp]: "participants (setGame s gid g) = participants s"
  by (simp add: setGame_def)

lemma games_setParticipant [simp]: "games (setParticipant s gid uid p) = games s"
  by (simp add: setParticipant_def)

lemma length_alist_update:
  "length (AList.update k v al) = (if k \<in> fst ` set al then length al else Suc (length al))"
  by (induction al) auto

lemma length_participants_setParticipant_new:
  assumes "getParticipant s gid uid = None"
  shows "length (participants (setParticipant s gid uid p)) = Suc (length (participants s))"
proof -
  have "(gid, uid) \<notin> fst ` set (participants s)"
    using assms by (simp add: getParticipant_def map_of_eq_None_iff)
  then show ?thesis by (simp add: setParticipant_def length_alist_update)
qed

lemma length_games_setGame_old:
  assumes "getGame s gid = Some g0"
  shows "length (games (setGame s gid g)) = length (games s)"
proof -
  have "gid \<in> fst ` set (games s)"
    using assms unfolding getGame_def by (metis map_of_eq_None_iff option.distinct(1))
  then show ?thesis by (simp add: setGame_def length_alist_update)
qed

lemma ensureJoined_present:
  assumes "getParticipant s (gameId c) uid = Some p" and "user c = Some uid"
  shows "ensureJoined rnd now c s k = (s, k)"
  using assms by (simp add: ensureJoined_def)

lemma toggleCell_outside_layout:
  assumes "user c = Some uid" and "gameData c = Some g" and "layout g = Some l"
    and "length l \<le> i" and "myParticipantData c = Some me" and "i \<notin> set (checksOrEmpty me)"
  shows "toggleCell c s now i =
     Inr (mergeParticipant s (gameId c) uid
            (\<lambda>p. p\<lparr>checkedIndices := Some (checksOrEmpty me @ [i]), lastActive := Some now\<rparr>))"
  using assms by (simp add: toggleCell_def Let_def)

text \<open>
  Claim C7. The operations on a participant record keep the invariant of \<open>checkedIndices\<close>
  (no index twice; every index below 24, inside the layout and on a non-gap slot): the record
  written by \<open>toggleCell\<close> for any slot index of the 24-slot layout satisfies it when the record
  the client toggles from does (a gap index writes nothing at all), no other participant record
  is touched, and the record created at join has the empty marked set, which satisfies it for
  every layout. The indices that reach \<open>toggleCell\<close> are slot indices: it is local to the
  component and called only from the cells drawn for the non-gap slots of the layout (the guard
  itself would let a number outside the layout through, see \<open>toggleCell_outside_layout\<close>).
\<close>

theorem checkedIndices_invariant_preserved:
  "(user c = Some uid \<and> gameData c = Some g \<and> layout g = Some l \<and> length l = TOTAL_CELLS \<and>
    i < length l \<and> myParticipantData c = Some me \<and> checkedIndicesInv l (checksOrEmpty me) \<longrightarrow>
      (\<exists>s'. toggleCell c s now i = Inr s' \<and>
         (l ! i = None \<longrightarrow> s' = s) \<and>
         (l ! i \<noteq> None \<longrightarrow>
            (\<exists>p'. getParticipant s' (gameId c) uid = Some p' \<and>
                  checkedIndicesInv l (checksOrEmpty p'))) \<and>
         (\<forall>gid u. (gid, u) \<noteq> (gameId c, uid) \<longrightarrow>
            getParticipant s' gid u = getParticipant s gid u))) \<and>
   (gameId c' \<noteq> [] \<and> user c' = Some uid' \<and> gameData c' = Some g' \<and>
    getParticipant s0 (gameId c') uid' = None \<longrightarrow>
      (\<exists>p. getParticipant (fst (ensureJoined rnd now0 c' s0 k)) (gameId c') uid' = Some p \<and>
           checksOrEmpty p = [] \<and> checkedIndicesInv l' (checksOrEmpty p)))"
proof (intro conjI impI)
  assume a: "user c = Some uid \<and> gameData c = Some g \<and> layout g = Some l \<and>
    length l = TOTAL_CELLS \<and> i < length l \<and> myParticipantData c = Some me \<and>
    checkedIndicesInv l (checksOrEmpty me)"
  then have u: "user c = Some uid" and g: "gameData c = Some g" and l: "layout g = Some l"
    and len: "length l = TOTAL_CELLS" and i: "i < length l"
    and me: "myParticipantData c = Some me" and inv0: "checkedIndicesInv l (checksOrEmpty me)"
    by blast+
  show "\<exists>s'. toggleCell c s now i = Inr s' \<and>
         (l ! i = None \<longrightarrow> s' = s) \<and>
         (l ! i \<noteq> None \<longrightarrow>
            (\<exists>p'. getParticipant s' (gameId c) uid = Some p' \<and>
                  checkedIndicesInv l (checksOrEmpty p'))) \<and>
         (\<forall>gid u. (gid, u) \<noteq> (gameId c, uid) \<longrightarrow>
            getParticipant s' gid u = getParticipant s gid u)"
  proof (cases "l ! i = None")
    case True
    have "toggleCell c s now i = Inr s"
      using g l i True by (rule toggleCell_gap_noop_aux)
    then show ?thesis using True by simp
  next
    case False
    let ?cs = "if i \<in> set (checksOrEmpty me) then filter (\<lambda>j. j \<noteq> i) (checksOrEmpty me)
               else checksOrEmpty me @ [i]"
    let ?s' = "mergeParticipant s (gameId c) uid
                 (\<lambda>p. p\<lparr>checkedIndices := Some ?cs, lastActive := Some now\<rparr>)"
    have run: "toggleCell c s now i = Inr ?s'"
      using u g l i False me by (rule toggleCell_writes)
    have "i < TOTAL_CELLS" using i len by simp
    then have inv: "checkedIndicesInv l ?cs"
      using inv0 i False by (intro toggled_checks_inv)
    let ?p' = "(case getParticipant s (gameId c) uid of None \<Rightarrow> emptyParticipant | Some p \<Rightarrow> p)
                 \<lparr>checkedIndices := Some ?cs, lastActive := Some now\<rparr>"
    have p': "getParticipant ?s' (gameId c) uid = Some ?p'"
      by (simp add: getParticipant_mergeParticipant)
    have cs: "checksOrEmpty ?p' = ?cs" by (simp add: checksOrEmpty_def)
    have others: "\<forall>gid u. (gid, u) \<noteq> (gameId c, uid) \<longrightarrow>
        getParticipant ?s' gid u = getParticipant s gid u"
      by (simp add: getParticipant_mergeParticipant)
    have inv': "checkedIndicesInv l (checksOrEmpty ?p')" unfolding cs by (rule inv)
    have written: "\<exists>p'. getParticipant ?s' (gameId c) uid = Some p' \<and>
                  checkedIndicesInv l (checksOrEmpty p')"
      using p' inv' by (intro exI [of _ ?p'] conjI)
    have gapcase: "l ! i = None \<longrightarrow> ?s' = s" using False by blast
    have nongap: "l ! i \<noteq> None \<longrightarrow>
            (\<exists>p'. getParticipant ?s' (gameId c) uid = Some p' \<and>
                  checkedIndicesInv l (checksOrEmpty p'))"
      using written by blast
    show ?thesis
      by (intro exI [of _ ?s'] conjI run gapcase nongap others)
  qed
next
  assume b: "gameId c' \<noteq> [] \<and> user c' = Some uid' \<and> gameData c' = Some g' \<and>
    getParticipant s0 (gameId c') uid' = None"
  obtain nm k' where gen: "generateFunnyName rnd k = (nm, k')"
    by (cases "generateFunnyName rnd k")
  let ?p = "\<lparr>name = Some nm, checkedIndices = Some [], userId = Some uid', lastActive = Some now0\<rparr>"
  have "fst (ensureJoined rnd now0 c' s0 k) =
      incrementParticipantCount (setParticipant s0 (gameId c') uid' ?p) (gameId c')"
    using b by (simp add: ensureJoined_def gen)
  then have "getParticipant (fst (ensureJoined rnd now0 c' s0 k)) (gameId c') uid' = Some ?p"
    by (simp add: incrementParticipantCount_def getParticipant_setParticipant split: option.splits)
  moreover have "checksOrEmpty ?p = []" by (simp add: checksOrEmpty_def)
  moreover have "checkedIndicesInv l' []" by (simp add: checkedIndicesInv_def)
  ultimately show "\<exists>p. getParticipant (fst (ensureJoined rnd now0 c' s0 k)) (gameId c') uid' = Some p \<and>
           checksOrEmpty p = [] \<and> checkedIndicesInv l' (checksOrEmpty p)"
    by (intro exI [of _ ?p]) simp
qed

theorem checkedIndices_invariant_preserved_witness:
  "(user demoJoinedClient = Some ''u2'' \<and> gameData demoJoinedClient = Some demoGame \<and>
    layout demoGame = Some demoLayout \<and> length demoLayout = TOTAL_CELLS \<and>
    2 < length demoLayout \<and> myParticipantData demoJoinedClient = Some (demoRecord [] 2000) \<and>
    checkedIndicesInv demoLayout (checksOrEmpty (demoRecord [] 2000))) \<and>
   (\<exists>s'. toggleCell demoJoinedClient demoJoinedStore 3000 2 = Inr s' \<and>
         (demoLayout ! 2 = None \<longrightarrow> s' = demoJoinedStore) \<and>
         (demoLayout ! 2 \<noteq> None \<longrightarrow>
            (\<exists>p'. getParticipant s' (gameId demoJoinedClient) ''u2'' = Some p' \<and>
                  checkedIndicesInv demoLayout (checksOrEmpty p'))) \<and>
         (\<forall>gid u. (gid, u) \<noteq> (gameId demoJoinedClient, ''u2'') \<longrightarrow>
            getParticipant s' gid u = getParticipant demoJoinedStore gid u)) \<and>
   (gameId demoClient \<noteq> [] \<and> user demoClient = Some ''u2'' \<and>
    gameData demoClient = Some demoGame \<and>
    getParticipant demoStore (gameId demoClient) ''u2'' = None) \<and>
   (\<exists>p. getParticipant (fst (ensureJoined (\<lambda>k. 0) 2000 demoClient demoStore 0))
           (gameId demoClient) ''u2'' = Some p \<and>
        checksOrEmpty p = [] \<and> checkedIndicesInv demoLayout (checksOrEmpty p))"
proof -
  have inv: "checkedIndicesInv demoLayout (checksOrEmpty (demoRecord [] 2000))"
    by (simp add: checkedIndicesInv_def checksOrEmpty_def demoRecord_def)
  have "user demoJoinedClient = Some ''u2''" "gameData demoJoinedClient = Some demoGame"
    "layout demoGame = Some demoLayout" "length demoLayout = TOTAL_CELLS"
    "2 < length demoLayout" "myParticipantData demoJoinedClient = Some (demoRecord [] 2000)"
    by code_simp+
  with inv have H1: "user demoJoinedClient = Some ''u2'' \<and> gameData demoJoinedClient = Some demoGame \<and>
    layout demoGame = Some demoLayout \<and> length demoLayout = TOTAL_CELLS \<and>
    2 < length demoLayout \<and> myParticipantData demoJoinedClient = Some (demoRecord [] 2000) \<and>
    checkedIndicesInv demoLayout (checksOrEmpty (demoRecord [] 2000))"
    by (intro conjI)
  have "gameId demoClient \<noteq> []" "user demoClient = Some ''u2''"
    "gameData demoClient = Some demoGame"
    "getParticipant demoStore (gameId demoClient) ''u2'' = None"
    by code_simp+
  then have H2: "gameId demoClient \<noteq> [] \<and> user demoClient = Some ''u2'' \<and>
    gameData demoClient = Some demoGame \<and>
    getParticipant demoStore (gameId demoClient) ''u2'' = None"
    by (intro conjI)
  note T = checkedIndices_invariant_preserved
    [where c = demoJoinedClient and uid = "''u2''" and g = demoGame and l = demoLayout
       and i = 2 and me = "demoRecord [] 2000" and s = demoJoinedStore and now = 3000
       and c' = demoClient and uid' = "''u2''" and g' = demoGame and ?s0.0 = demoStore
       and rnd = "\<lambda>k. 0" and ?now0.0 = 2000 and k = 0 and l' = demoLayout]
  note C1 = T [THEN conjunct1, THEN mp, OF H1]
  note C2 = T [THEN conjunct2, THEN mp, OF H2]
  show ?thesis by (rule conjI [OF H1 conjI [OF C1 conjI [OF H2 C2]]])
qed

text \<open>
  Claim C2. When \<open>ensureJoined\<close> runs for identity \<open>U\<close> on a session \<open>S\<close> that exists and holds no
  participant record for \<open>(S, U)\<close>, it writes exactly one new participant record, with an empty
  marked set, leaves every other participant record and every other session as they were, and
  raises the session's \<open>participantCount\<close> by exactly 1; run again for the same \<open>(S, U)\<close> on the
  resulting store, it writes nothing and draws no name.
\<close>

theorem ensureJoined_joins_exactly_once:
  assumes "gameId c \<noteq> []" and "user c = Some uid" and "gameData c = Some gd"
    and "getParticipant s (gameId c) uid = None" and "getGame s (gameId c) = Some g0"
  shows "\<exists>s' k'. ensureJoined rnd now c s k = (s', k') \<and>
     getParticipant s' (gameId c) uid =
       Some \<lparr>name = Some (fst (generateFunnyName rnd k)), checkedIndices = Some [],
             userId = Some uid, lastActive = Some now\<rparr> \<and>
     (\<forall>gid u. (gid, u) \<noteq> (gameId c, uid) \<longrightarrow> getParticipant s' gid u = getParticipant s gid u) \<and>
     length (participants s') = Suc (length (participants s)) \<and>
     getGame s' (gameId c) =
       Some (g0\<lparr>participantCount :=
                  Some ((case participantCount g0 of None \<Rightarrow> 0 | Some n \<Rightarrow> n) + 1)\<rparr>) \<and>
     (\<forall>gid. gid \<noteq> gameId c \<longrightarrow> getGame s' gid = getGame s gid) \<and>
     length (games s') = length (games s) \<and>
     (\<forall>rnd2 now2 c2 k2. gameId c2 = gameId c \<and> user c2 = Some uid \<longrightarrow>
        ensureJoined rnd2 now2 c2 s' k2 = (s', k2))"
proof -
  obtain nm k' where gen: "generateFunnyName rnd k = (nm, k')"
    by (cases "generateFunnyName rnd k")
  let ?p = "\<lparr>name = Some nm, checkedIndices = Some [], userId = Some uid, lastActive = Some now\<rparr>"
  let ?g = "g0\<lparr>participantCount :=
                  Some ((case participantCount g0 of None \<Rightarrow> 0 | Some n \<Rightarrow> n) + 1)\<rparr>"
  let ?s1 = "setParticipant s (gameId c) uid ?p"
  let ?s2 = "setGame ?s1 (gameId c) ?g"
  have g1: "getGame ?s1 (gameId c) = Some g0" using assms(5) by simp
  have inc: "incrementParticipantCount ?s1 (gameId c) = ?s2"
    unfolding incrementParticipantCount_def g1 by simp
  have run: "ensureJoined rnd now c s k = (?s2, k')"
    using assms(1-4) by (simp add: ensureJoined_def gen inc)
  have rec: "getParticipant ?s2 (gameId c) uid = Some ?p"
    by (simp add: getParticipant_setParticipant)
  have others: "\<forall>gid u. (gid, u) \<noteq> (gameId c, uid) \<longrightarrow> getParticipant ?s2 gid u = getParticipant s gid u"
    by (simp add: getParticipant_setParticipant)
  have len: "length (participants ?s2) = Suc (length (participants s))"
    using length_participants_setParticipant_new [OF assms(4)] by simp
  have cnt: "getGame ?s2 (gameId c) = Some ?g" by (simp add: getGame_setGame)
  have sessions: "\<forall>gid. gid \<noteq> gameId c \<longrightarrow> getGame ?s2 gid = getGame s gid"
    by (simp add: getGame_setGame)
  have glen: "length (games ?s2) = length (games s)"
    using length_games_setGame_old [OF g1] by simp
  have again: "\<forall>rnd2 now2 c2 k2. gameId c2 = gameId c \<and> user c2 = Some uid \<longrightarrow>
        ensureJoined rnd2 now2 c2 ?s2 k2 = (?s2, k2)"
  proof (intro allI impI)
    fix rnd2 :: rng and now2 :: timestamp and c2 :: client and k2 :: nat
    assume c2: "gameId c2 = gameId c \<and> user c2 = Some uid"
    have "getParticipant ?s2 (gameId c2) uid = Some ?p" using rec c2 by simp
    then show "ensureJoined rnd2 now2 c2 ?s2 k2 = (?s2, k2)"
      using c2 by (intro ensureJoined_present) simp_all
  qed
  have nm: "fst (generateFunnyName rnd k) = nm" by (simp add: gen)
  show ?thesis
    unfolding nm using run rec others len cnt sessions glen again
    by (intro exI [of _ ?s2] exI [of _ k']) (intro conjI; assumption)
qed


theorem ensureJoined_joins_exactly_once_witness:
  "gameId demoClient \<noteq> [] \<and> user demoClient = Some ''u2'' \<and>
   gameData demoClient = Some demoGame \<and>
   getParticipant demoStore (gameId demoClient) ''u2'' = None \<and>
   getGame demoStore (gameId demoClient) = Some demoGame \<and>
   (\<exists>s' k'. ensureJoined (\<lambda>k. 0) 2000 demoClient demoStore 0 = (s', k') \<and>
     getParticipant s' (gameId demoClient) ''u2'' =
       Some \<lparr>name = Some (fst (generateFunnyName (\<lambda>k. 0) 0)), checkedIndices = Some [],
             userId = Some ''u2'', lastActive = Some 2000\<rparr> \<and>
     (\<forall>gid u. (gid, u) \<noteq> (gameId demoClient, ''u2'') \<longrightarrow>
        getParticipant s' gid u = getParticipant demoStore gid u) \<and>
     length (participants s') = Suc (length (participants demoStore)) \<and>
     getGame s' (gameId demoClient) =
       Some (demoGame\<lparr>participantCount :=
                  Some ((case participantCount demoGame of None \<Rightarrow> 0 | Some n \<Rightarrow> n) + 1)\<rparr>) \<and>
     (\<forall>gid. gid \<noteq> gameId demoClient \<longrightarrow> getGame s' gid = getGame demoStore gid) \<and>
     length (games s') = length (games demoStore) \<and>
     (\<forall>rnd2 now2 c2 k2. gameId c2 = gameId demoClient \<and> user c2 = Some ''u2'' \<longrightarrow>
        ensureJoined rnd2 now2 c2 s' k2 = (s', k2))) \<and>
   ensureJoined (\<lambda>k. 0) 2000 demoClient demoStore 0 = (demoStoreWith (demoRecord [] 2000), 4) \<and>
   ensureJoined (\<lambda>k. 1 / 3) 5000 demoClient (demoStoreWith (demoRecord [] 2000)) 4 =
     (demoStoreWith (demoRecord [] 2000), 4)"
proof -
  have h1: "gameId demoClient \<noteq> []" by code_simp
  have h2: "user demoClient = Some ''u2''" by code_simp
  have h3: "gameData demoClient = Some demoGame" by code_simp
  have h4: "getParticipant demoStore (gameId demoClient) ''u2'' = None" by code_simp
  have h5: "getGame demoStore (gameId demoClient) = Some demoGame" by code_simp
  have e1: "ensureJoined (\<lambda>k. 0) 2000 demoClient demoStore 0 = (demoStoreWith (demoRecord [] 2000), 4)"
    by code_simp
  have e2: "ensureJoined (\<lambda>k. 1 / 3) 5000 demoClient (demoStoreWith (demoRecord [] 2000)) 4 =
     (demoStoreWith (demoRecord [] 2000), 4)"
    by code_simp
  note T = ensureJoined_joins_exactly_once [OF h1 h2 h3 h4 h5, of "\<lambda>k. 0" 2000 0]
  show ?thesis by (intro conjI h1 h2 h3 h4 h5 T e1 e2)
qed


subsection \<open>Presence ordering\<close>

lemma mset_insertBy: "mset (insertBy cmp x xs) = add_mset x (mset xs)"
  by (induction xs) simp_all

lemma mset_sortBy: "mset (sortBy cmp xs) = mset xs"
  by (induction xs) (simp_all add: sortBy_def mset_insertBy)

lemma set_insertBy: "set (insertBy cmp x xs) = insert x (set xs)"
  by (induction xs) auto

lemma set_sortBy: "set (sortBy cmp xs) = set xs"
  using mset_sortBy [of cmp xs] by (metis set_mset_mset)

lemma length_sortBy: "length (sortBy cmp xs) = length xs"
  using mset_sortBy [of cmp xs] by (metis size_mset)

lemma sorted_insertBy:
  assumes "\<And>a b. cmp a b = key b - key a"
    and "sorted_wrt (\<lambda>a b. key b \<le> key a) xs"
  shows "sorted_wrt (\<lambda>a b. (key b :: int) \<le> key a) (insertBy cmp x xs)"
  using assms(2)
proof (induction xs)
  case Nil
  then show ?case by simp
next
  case (Cons y ys)
  show ?case
  proof (cases "cmp x y \<le> 0")
    case True
    then have "key y \<le> key x" by (simp add: assms(1))
    then show ?thesis using True Cons.prems by fastforce
  next
    case False
    then have "key x \<le> key y" by (simp add: assms(1))
    then show ?thesis using False Cons by (auto simp: set_insertBy)
  qed
qed

lemma sorted_sortBy:
  assumes "\<And>a b. cmp a b = key b - key a"
  shows "sorted_wrt (\<lambda>a b. (key b :: int) \<le> key a) (sortBy cmp xs)"
proof (induction xs)
  case Nil
  then show ?case by (simp add: sortBy_def)
next
  case (Cons x xs)
  then show ?case
    using sorted_insertBy [OF assms, where xs = "sortBy cmp xs" and x = x] by (simp add: sortBy_def)
qed

lemma millisOr0_recency: "millisOr0 p = recency p"
  by (simp add: millisOr0_def recency_def split: option.splits)

lemma compareLastActive_recency: "compareLastActive a b = recency b - recency a"
  by (simp add: compareLastActive_def millisOr0_recency)

lemma sorted_presence: "sorted_wrt (\<lambda>a b. recency b \<le> recency a) (sortBy compareLastActive docs)"
  by (rule sorted_sortBy) (rule compareLastActive_recency)

lemma presence_later_first:
  assumes "i < length (sortBy compareLastActive docs)" and "j < length (sortBy compareLastActive docs)"
    and "recency (sortBy compareLastActive docs ! i) < recency (sortBy compareLastActive docs ! j)"
  shows "j < i"
proof (rule ccontr)
  assume "\<not> j < i"
  then have "i < j" using assms(3) by (cases "i = j") auto
  then have "recency (sortBy compareLastActive docs ! j) \<le> recency (sortBy compareLastActive docs ! i)"
    using sorted_presence [of docs] assms(2) by (simp add: sorted_wrt_iff_nth_less)
  then show False using assms(3) by simp
qed

lemma presence_head_is_latest:
  assumes "p \<in> set docs"
  shows "recency p \<le> recency (hd (sortBy compareLastActive docs))"
proof -
  let ?out = "sortBy compareLastActive docs"
  have p: "p \<in> set ?out" using assms by (simp add: set_sortBy)
  then obtain x xs where out: "?out = x # xs" by (cases ?out) auto
  have "sorted_wrt (\<lambda>a b. recency b \<le> recency a) (x # xs)"
    using sorted_presence [of docs] by (simp only: out)
  then have "\<forall>q \<in> set (x # xs). recency q \<le> recency x" by auto
  then show ?thesis using p by (simp only: out list.sel) 
qed

lemma presence_advanced_to_front:
  assumes "k < length docs" and "\<forall>j < length docs. j \<noteq> k \<longrightarrow> recency (docs ! j) < t"
  shows "hd (sortBy compareLastActive (docs[k := (docs ! k)\<lparr>lastActive := Some t\<rparr>])) =
           (docs ! k)\<lparr>lastActive := Some t\<rparr>"
proof -
  let ?p = "(docs ! k)\<lparr>lastActive := Some t\<rparr>"
  let ?docs = "docs[k := ?p]"
  let ?out = "sortBy compareLastActive ?docs"
  have key: "recency ?p = t" by (simp add: recency_def)
  have pin: "?p \<in> set ?docs" using assms(1) by (simp add: set_update_memI)
  then have le: "t \<le> recency (hd ?out)"
    using presence_head_is_latest [OF pin] key by simp
  have len: "length ?out = length docs" by (simp add: length_sortBy)
  have ne: "?out \<noteq> []"
  proof
    assume "?out = []"
    then have "length ?out = 0" by simp
    then show False using len assms(1) by simp
  qed
  have "hd ?out \<in> set ?out" using ne by (rule hd_in_set)
  then have "hd ?out \<in> set ?docs" by (simp only: set_sortBy)
  then obtain j where j: "j < length docs" "hd ?out = ?docs ! j"
    by (metis in_set_conv_nth length_list_update)
  show ?thesis
  proof (cases "j = k")
    case True
    then show ?thesis using j assms(1) by simp
  next
    case False
    then have "recency (hd ?out) < t" using j assms(2) by simp
    then show ?thesis using le by simp
  qed
qed

lemma handler_sorts:
  "user eff = Some uid \<Longrightarrow>
   participantList (participantsSnapshotHandler eff c docs) = sortBy compareLastActive docs"
  by (simp add: participantsSnapshotHandler_def)

text \<open>
  Claim C4. The presence ordering computed by the snapshot handler is a sort of the live
  participant records by \<open>lastActive\<close> descending, a record without a recency value counting as
  \<open>0\<close>, the least value of a server timestamp in epoch milliseconds: the result is a permutation
  of the records, ordered by decreasing recency; of two records with \<open>lastActive = t1\<close> and
  \<open>lastActive = t2 > t1\<close> the second comes first; a record whose \<open>lastActive\<close> is advanced above
  the recency of all others heads the next ordering; and when the timestamps present are not
  negative, no record has a smaller recency than one without a value.
\<close>

theorem presence_ordering_is_descending_sort:
  "(user eff = Some uid \<longrightarrow>
      participantList (participantsSnapshotHandler eff c docs) = sortBy compareLastActive docs) \<and>
   mset (sortBy compareLastActive docs) = mset docs \<and>
   sorted_wrt (\<lambda>a b. recency b \<le> recency a) (sortBy compareLastActive docs) \<and>
   (\<forall>i j t1 t2. i < length docs \<and> j < length docs \<and>
      lastActive (sortBy compareLastActive docs ! i) = Some t1 \<and>
      lastActive (sortBy compareLastActive docs ! j) = Some t2 \<and> t1 < t2 \<longrightarrow> j < i) \<and>
   (\<forall>a b t1 t2. lastActive a = Some t1 \<and> lastActive b = Some t2 \<and> t1 < t2 \<longrightarrow>
      sortBy compareLastActive [a, b] = [b, a] \<and> sortBy compareLastActive [b, a] = [b, a]) \<and>
   (\<forall>k t. k < length docs \<and> (\<forall>j < length docs. j \<noteq> k \<longrightarrow> recency (docs ! j) < t) \<longrightarrow>
      hd (sortBy compareLastActive (docs[k := (docs ! k)\<lparr>lastActive := Some t\<rparr>])) =
        (docs ! k)\<lparr>lastActive := Some t\<rparr>) \<and>
   ((\<forall>q \<in> set docs. \<forall>t. lastActive q = Some t \<longrightarrow> 0 \<le> t) \<longrightarrow>
      (\<forall>p \<in> set docs. lastActive p = None \<longrightarrow> (\<forall>q \<in> set docs. recency p \<le> recency q)))"
proof (intro conjI)
  show "user eff = Some uid \<longrightarrow>
      participantList (participantsSnapshotHandler eff c docs) = sortBy compareLastActive docs"
    by (simp add: handler_sorts)
  show "mset (sortBy compareLastActive docs) = mset docs" by (rule mset_sortBy)
  show "sorted_wrt (\<lambda>a b. recency b \<le> recency a) (sortBy compareLastActive docs)"
    by (rule sorted_presence)
  show "\<forall>i j t1 t2. i < length docs \<and> j < length docs \<and>
      lastActive (sortBy compareLastActive docs ! i) = Some t1 \<and>
      lastActive (sortBy compareLastActive docs ! j) = Some t2 \<and> t1 < t2 \<longrightarrow> j < i"
  proof (intro allI impI)
    fix i j t1 t2
    assume a: "i < length docs \<and> j < length docs \<and>
      lastActive (sortBy compareLastActive docs ! i) = Some t1 \<and>
      lastActive (sortBy compareLastActive docs ! j) = Some t2 \<and> t1 < t2"
    then have "recency (sortBy compareLastActive docs ! i) < recency (sortBy compareLastActive docs ! j)"
      by (simp add: recency_def)
    then show "j < i" using a by (intro presence_later_first [of i docs j]) (simp_all add: length_sortBy)
  qed
  show "\<forall>a b t1 t2. lastActive a = Some t1 \<and> lastActive b = Some t2 \<and> t1 < t2 \<longrightarrow>
      sortBy compareLastActive [a, b] = [b, a] \<and> sortBy compareLastActive [b, a] = [b, a]"
    by (simp add: sortBy_def compareLastActive_recency recency_def)
  show "\<forall>k t. k < length docs \<and> (\<forall>j < length docs. j \<noteq> k \<longrightarrow> recency (docs ! j) < t) \<longrightarrow>
      hd (sortBy compareLastActive (docs[k := (docs ! k)\<lparr>lastActive := Some t\<rparr>])) =
        (docs ! k)\<lparr>lastActive := Some t\<rparr>"
    using presence_advanced_to_front by blast
  show "(\<forall>q \<in> set docs. \<forall>t. lastActive q = Some t \<longrightarrow> 0 \<le> t) \<longrightarrow>
      (\<forall>p \<in> set docs. lastActive p = None \<longrightarrow> (\<forall>q \<in> set docs. recency p \<le> recency q))"
    by (auto simp: recency_def split: option.splits)
qed


theorem presence_ordering_is_descending_sort_witness:
  "user demoClient = Some ''u2'' \<and>
   participantList (participantsSnapshotHandler demoClient demoClient demoParticipants) =
     [demoParticipants ! 1, demoParticipants ! 0, demoParticipants ! 2] \<and>
   2 < length demoParticipants \<and>
   hd (sortBy compareLastActive
         (demoParticipants[2 := (demoParticipants ! 2)\<lparr>lastActive := Some 3000\<rparr>])) =
     (demoParticipants ! 2)\<lparr>lastActive := Some 3000\<rparr> \<and>
   sortBy compareLastActive
     (demoParticipants[2 := (demoParticipants ! 2)\<lparr>lastActive := Some 3000\<rparr>]) =
     [(demoParticipants ! 2)\<lparr>lastActive := Some 3000\<rparr>, demoParticipants ! 1,
      demoParticipants ! 0]"
proof -
  note T = presence_ordering_is_descending_sort [of demoClient "''u2''" demoClient demoParticipants]
  have u: "user demoClient = Some ''u2''" by code_simp
  have run: "sortBy compareLastActive demoParticipants =
      [demoParticipants ! 1, demoParticipants ! 0, demoParticipants ! 2]"
    by code_simp
  have sorted: "participantList (participantsSnapshotHandler demoClient demoClient demoParticipants) =
      [demoParticipants ! 1, demoParticipants ! 0, demoParticipants ! 2]"
    using T [THEN conjunct1, THEN mp, OF u] by (simp only: run)
  have k: "2 < length demoParticipants" by code_simp
  have others: "\<forall>j < length demoParticipants. j \<noteq> 2 \<longrightarrow> recency (demoParticipants ! j) < 3000"
    by (auto simp: demoParticipants_def recency_def nth_Cons' less_Suc_eq numeral_3_eq_3)
  have front: "hd (sortBy compareLastActive
         (demoParticipants[2 := (demoParticipants ! 2)\<lparr>lastActive := Some 3000\<rparr>])) =
     (demoParticipants ! 2)\<lparr>lastActive := Some 3000\<rparr>"
    using T [THEN conjunct2, THEN conjunct2, THEN conjunct2, THEN conjunct2, THEN conjunct2,
             THEN conjunct1, rule_format, of 2 3000] k others
    by blast
  have run2: "sortBy compareLastActive
     (demoParticipants[2 := (demoParticipants ! 2)\<lparr>lastActive := Some 3000\<rparr>]) =
     [(demoParticipants ! 2)\<lparr>lastActive := Some 3000\<rparr>, demoParticipants ! 1,
      demoParticipants ! 0]"
    by code_simp
  show ?thesis by (intro conjI u sorted k front run2)
qed


subsection \<open>The recent sessions feed\<close>

lemma filter_truthy_nonGap:
  assumes "Some [] \<notin> set l"
  shows "filter truthy l = filter (\<lambda>cell. cell \<noteq> None) l"
proof (rule filter_cong [OF refl])
  fix x assume "x \<in> set l"
  then have "x \<noteq> Some []" using assms by auto
  then show "truthy x = (x \<noteq> None)" by (cases x) (simp_all add: truthy_def)
qed

lemma shownItems_filter: "shownItems l = map the (filter truthy l)"
  by (induction l rule: shownItems.induct) (simp_all add: truthy_def)

lemma previewText_shown:
  assumes "layout g = Some l"
  shows "previewText g = previewShown l"
  using assms by (simp add: previewText_def previewShown_def shownItems_filter)

lemma previewText_part_000_shown:
  assumes "layout g = Some l"
  shows "previewText_part_000 g = joinWith '', '' (take 3 (shownItems l)) @ ''...''"
  using assms by (simp add: previewText_part_000_def shownItems_filter)

lemma shownItems_nonGap:
  assumes "Some [] \<notin> set l"
  shows "shownItems l = nonGapItems l"
  using assms by (simp add: shownItems_filter nonGapItems_def filter_truthy_nonGap)

lemma parseItems_not_empty: "[] \<notin> set (parseItems inp)"
  by (auto simp: parseItems_def trim_def)

lemma generated_layout_items:
  assumes "validRng rnd" and "10 \<le> length items" and "length items \<le> 20" and "[] \<notin> set items"
  shows "Some [] \<notin> set (fst (generateLayout rnd k items))"
    and "length (nonGapItems (fst (generateLayout rnd k items))) = length items"
proof -
  let ?L = "fst (generateLayout rnd k items)"
  have M: "mset ?L = mset (map Some items) + mset (replicate (24 - length items) None)"
    using assms(1,3) by (intro mset_generateLayout) simp_all
  then have "mset ?L = mset (map Some items @ replicate (24 - length items) None)"
    by (simp del: mset_replicate mset_map)
  then have "set ?L = set (map Some items @ replicate (24 - length items) None)"
    by (rule mset_eq_setD)
  then show "Some [] \<notin> set ?L" using assms(4) by auto
  have "mset (filter (\<lambda>cell. cell \<noteq> None) ?L) = mset (map Some items)"
    using filter_layout_mset(1) [OF M] .
  then have "length (filter (\<lambda>cell. cell \<noteq> None) ?L) = length items"
    by (metis size_mset length_map)
  then show "length (nonGapItems ?L) = length items" by (simp add: nonGapItems_def)
qed

lemma created_layout_preview:
  assumes "validRng rnd" and "10 \<le> length (parseItems inp)" and "length (parseItems inp) \<le> 20"
    and "layout g = Some (fst (generateLayout rnd k (parseItems inp)))"
  shows "previewText g = previewSpec (fst (generateLayout rnd k (parseItems inp)))"
    and "previewText_part_000 g = previewSpec (fst (generateLayout rnd k (parseItems inp)))"
    and "3 < length (nonGapItems (fst (generateLayout rnd k (parseItems inp))))"
proof -
  let ?L = "fst (generateLayout rnd k (parseItems inp))"
  note G = generated_layout_items [OF assms(1-3) parseItems_not_empty, of k]
  have shown: "shownItems ?L = nonGapItems ?L" using G(1) by (rule shownItems_nonGap)
  show many: "3 < length (nonGapItems ?L)" using G(2) assms(2) by simp
  show "previewText g = previewSpec ?L"
    using previewText_shown [OF assms(4)] by (simp add: previewShown_def previewSpec_def shown)
  show "previewText_part_000 g = previewSpec ?L"
    using previewText_part_000_shown [OF assms(4)] many by (simp add: previewSpec_def shown)
qed

lemma sorted_recent:
  "sorted_wrt (\<lambda>a b. createdAt (snd b) \<le> createdAt (snd a)) (sortBy compareCreatedAtDesc gs)"
  by (rule sorted_sortBy) (simp add: compareCreatedAtDesc_def)

lemma recent_most_recent:
  assumes "x \<in> set (take n (sortBy compareCreatedAtDesc gs))"
    and "y \<in> set gs" and "y \<notin> set (take n (sortBy compareCreatedAtDesc gs))"
  shows "createdAt (snd y) \<le> createdAt (snd x)"
proof -
  let ?xs = "sortBy compareCreatedAtDesc gs"
  have split: "set ?xs = set (take n ?xs) \<union> set (drop n ?xs)"
    by (metis append_take_drop_id set_append)
  have "y \<in> set ?xs" using assms(2) by (simp only: set_sortBy)
  then have y: "y \<in> set (drop n ?xs)" using assms(3) split by blast
  have "sorted_wrt (\<lambda>a b. createdAt (snd b) \<le> createdAt (snd a)) (take n ?xs @ drop n ?xs)"
    using sorted_recent [of gs] by (simp only: append_take_drop_id)
  then show ?thesis using assms(1) y unfolding sorted_wrt_append by blast
qed

text \<open>
  Claim C8, as the code has it. The recent sessions feed holds the result of the query on the
  session collection ordered by \<open>createdAt\<close> descending and bounded to 6: at most 6 sessions, in
  decreasing order of creation time, none of them older than a session left out. For each
  session the card shows its id, its \<open>participantCount\<close> (0 when absent) and the preview: the
  first 3 layout items that are neither gaps nor empty strings, joined by \<open>", "\<close>. In
  \<open>src/src/App.jsx\<close> the marker \<open>"..."\<close> follows exactly when there are more than 3 such
  items; in \<open>src/unnamed/part_000\<close> it follows always. On a layout without empty strings the
  items shown are the non-gap items, and on every layout that session creation writes (10 to 20
  non-blank lines) both copies show the first 3 non-gap items followed by the marker.
\<close>

theorem recent_sessions_feed:
  "(view c = Home \<longrightarrow> recentGames (recentGamesEffect c s) = recentGamesQuery s) \<and>
   (view c = Home \<and> user c \<noteq> None \<longrightarrow>
      recentGames (recentGamesEffect_part_000 c s) = recentGamesQuery s) \<and>
   length (recentGamesQuery s) = min 6 (length (games s)) \<and>
   set (recentGamesQuery s) \<subseteq> set (games s) \<and>
   sorted_wrt (\<lambda>a b. createdAt (snd b) \<le> createdAt (snd a)) (recentGamesQuery s) \<and>
   (\<forall>x \<in> set (recentGamesQuery s). \<forall>y \<in> set (games s) - set (recentGamesQuery s).
      createdAt (snd y) \<le> createdAt (snd x)) \<and>
   recentGameCard (gid, g) =
     (gid, (case participantCount g of None \<Rightarrow> 0 | Some n \<Rightarrow> n), previewText g) \<and>
   (layout g = Some l \<longrightarrow> previewText g = previewShown l) \<and>
   (layout g = Some l \<longrightarrow>
      previewText_part_000 g = joinWith '', '' (take 3 (shownItems l)) @ ''...'') \<and>
   (Some [] \<notin> set l \<longrightarrow> shownItems l = nonGapItems l \<and> previewShown l = previewSpec l) \<and>
   (validRng rnd \<and> 10 \<le> length (parseItems inp) \<and> length (parseItems inp) \<le> 20 \<and>
    layout g = Some (fst (generateLayout rnd k (parseItems inp))) \<longrightarrow>
      previewText g = previewSpec (fst (generateLayout rnd k (parseItems inp))) \<and>
      previewText_part_000 g = previewSpec (fst (generateLayout rnd k (parseItems inp))) \<and>
      3 < length (nonGapItems (fst (generateLayout rnd k (parseItems inp)))))"
proof (intro conjI)
  show "view c = Home \<longrightarrow> recentGames (recentGamesEffect c s) = recentGamesQuery s"
    by (simp add: recentGamesEffect_def onRecentGamesSnapshot_def)
  show "view c = Home \<and> user c \<noteq> None \<longrightarrow>
      recentGames (recentGamesEffect_part_000 c s) = recentGamesQuery s"
    by (simp add: recentGamesEffect_part_000_def onRecentGamesSnapshot_def)
  show "length (recentGamesQuery s) = min 6 (length (games s))"
    by (simp add: recentGamesQuery_def length_sortBy)
  show "set (recentGamesQuery s) \<subseteq> set (games s)"
    unfolding recentGamesQuery_def
    using set_take_subset [of 6 "sortBy compareCreatedAtDesc (games s)"]
    by (simp only: set_sortBy)
  show "sorted_wrt (\<lambda>a b. createdAt (snd b) \<le> createdAt (snd a)) (recentGamesQuery s)"
    unfolding recentGamesQuery_def using sorted_recent [of "games s"]
    by (rule sorted_wrt_take)
  show "\<forall>x \<in> set (recentGamesQuery s). \<forall>y \<in> set (games s) - set (recentGamesQuery s).
      createdAt (snd y) \<le> createdAt (snd x)"
    unfolding recentGamesQuery_def using recent_most_recent by blast
  show "recentGameCard (gid, g) =
     (gid, (case participantCount g of None \<Rightarrow> 0 | Some n \<Rightarrow> n), previewText g)"
    by (simp add: recentGameCard_def shownParticipantCount_def split: option.splits)
  show "layout g = Some l \<longrightarrow> previewText g = previewShown l"
    using previewText_shown by blast
  show "layout g = Some l \<longrightarrow>
      previewText_part_000 g = joinWith '', '' (take 3 (shownItems l)) @ ''...''"
    using previewText_part_000_shown by blast
  show "Some [] \<notin> set l \<longrightarrow> shownItems l = nonGapItems l \<and> previewShown l = previewSpec l"
    by (simp add: shownItems_nonGap previewShown_def previewSpec_def)
  show "validRng rnd \<and> 10 \<le> length (parseItems inp) \<and> length (parseItems inp) \<le> 20 \<and>
    layout g = Some (fst (generateLayout rnd k (parseItems inp))) \<longrightarrow>
      previewText g = previewSpec (fst (generateLayout rnd k (parseItems inp))) \<and>
      previewText_part_000 g = previewSpec (fst (generateLayout rnd k (parseItems inp))) \<and>
      3 < length (nonGapItems (fst (generateLayout rnd k (parseItems inp))))"
    using created_layout_preview by blast
qed

theorem recent_sessions_feed_witness:
  "view (demoClient\<lparr>view := Home\<rparr>) = Home \<and>
   map fst (recentGames (recentGamesEffect (demoClient\<lparr>view := Home\<rparr>) demoFeedStore)) =
     [''game7'', ''game6'', ''game5'', ''game4'', ''game3'', ''game2''] \<and>
   validRng (\<lambda>k. 1 / 2) \<and>
   parseItems ''a\<newline>b\<newline>c\<newline>d\<newline>e\<newline>f\<newline>g\<newline>h\<newline>i\<newline>j'' =
     [''a'', ''b'', ''c'', ''d'', ''e'', ''f'', ''g'', ''h'', ''i'', ''j''] \<and>
   layout demoGame =
     Some (fst (generateLayout (\<lambda>k. 1 / 2) 0
                  (parseItems ''a\<newline>b\<newline>c\<newline>d\<newline>e\<newline>f\<newline>g\<newline>h\<newline>i\<newline>j''))) \<and>
   previewText demoGame = ''a, c, e...'' \<and>
   previewText_part_000 demoGame = ''a, c, e...'' \<and>
   layout demoSmallGame = Some [Some ''x'', None, Some ''y''] \<and>
   previewText demoSmallGame = ''x, y'' \<and>
   previewText_part_000 demoSmallGame = ''x, y...'' \<and>
   recentGameCard (''game7'', demoSmallGame) = (''game7'', 0, ''x, y'')"
proof -
  let ?inp = "''a\<newline>b\<newline>c\<newline>d\<newline>e\<newline>f\<newline>g\<newline>h\<newline>i\<newline>j''"
  note T = recent_sessions_feed
    [where c = "demoClient\<lparr>view := Home\<rparr>" and s = demoFeedStore and gid = "''game7''"
       and g = demoGame and l = demoLayout and rnd = "\<lambda>k. 1 / 2" and inp = ?inp and k = 0]
  note S = recent_sessions_feed
    [where c = "demoClient\<lparr>view := Home\<rparr>" and s = demoFeedStore and gid = "''game7''"
       and g = demoSmallGame and l = "[Some ''x'', None, Some ''y'']" and rnd = "\<lambda>k. 1 / 2"
       and inp = ?inp and k = 0]
  have v: "view (demoClient\<lparr>view := Home\<rparr>) = Home" by simp
  have q: "map fst (recentGamesQuery demoFeedStore) =
      [''game7'', ''game6'', ''game5'', ''game4'', ''game3'', ''game2'']"
    by code_simp
  have feed: "map fst (recentGames (recentGamesEffect (demoClient\<lparr>view := Home\<rparr>) demoFeedStore)) =
     [''game7'', ''game6'', ''game5'', ''game4'', ''game3'', ''game2'']"
    using T [THEN conjunct1, THEN mp, OF v] by (simp only: q)
  have r: "validRng (\<lambda>k. 1 / 2)" by (simp add: validRng_def)
  have items: "parseItems ?inp = [''a'', ''b'', ''c'', ''d'', ''e'', ''f'', ''g'', ''h'', ''i'', ''j'']"
    by code_simp
  have n: "10 \<le> length (parseItems ?inp)" "length (parseItems ?inp) \<le> 20"
    by (simp_all only: items) simp_all
  have made: "layout demoGame = Some (fst (generateLayout (\<lambda>k. 1 / 2) 0 (parseItems ?inp)))"
    by code_simp
  have gen: "fst (generateLayout (\<lambda>k. 1 / 2) 0 (parseItems ?inp)) = demoLayout" by code_simp
  have spec: "previewSpec demoLayout = ''a, c, e...''" by code_simp
  have both: "previewText demoGame = previewSpec demoLayout \<and>
      previewText_part_000 demoGame = previewSpec demoLayout"
    using T r n made unfolding gen by blast
  have p1: "previewText demoGame = ''a, c, e...''" using both by (simp only: spec)
  have p2: "previewText_part_000 demoGame = ''a, c, e...''" using both by (simp only: spec)
  have l2: "layout demoSmallGame = Some [Some ''x'', None, Some ''y'']" by code_simp
  have sh: "previewShown [Some ''x'', None, Some ''y''] = ''x, y''" by code_simp
  have sh3: "joinWith '', '' (take 3 (shownItems [Some ''x'', None, Some ''y''])) @ ''...'' = ''x, y...''"
    by code_simp
  have p3: "previewText demoSmallGame = ''x, y''"
    using S l2 by (simp only: sh simp_thms)
  have p4: "previewText_part_000 demoSmallGame = ''x, y...''"
    using S l2 by (simp only: sh3 simp_thms)
  have pc: "participantCount demoSmallGame = None" by code_simp
  have card: "recentGameCard (''game7'', demoSmallGame) = (''game7'', 0, ''x, y'')"
    using S by (simp only: p3 pc option.case simp_thms)
  show ?thesis by (intro conjI v feed r items made p1 p2 l2 p3 p4 card)
qed

text \<open>
  Claim C8 as stated promises the first 3 non-gap items and the marker exactly when more than
  3 non-gap items exist. On a layout with 2 items the copy in \<open>src/unnamed/part_000\<close> appends
  the marker; and an empty string, which is not a gap, is left out of the preview by both
  copies, so that on a layout with the 4 non-gap items \<open>x\<close>, the empty string, \<open>y\<close>, \<open>z\<close> the
  copy in \<open>src/src/App.jsx\<close> shows \<open>x, y, z\<close> without the marker.
\<close>

theorem recent_sessions_preview_counterexample:
  "layout demoSmallGame = Some [Some ''x'', None, Some ''y''] \<and>
   length (nonGapItems [Some ''x'', None, Some ''y'']) = 2 \<and>
   previewSpec [Some ''x'', None, Some ''y''] = ''x, y'' \<and>
   previewText_part_000 demoSmallGame = ''x, y...'' \<and>
   previewText_part_000 demoSmallGame \<noteq> previewSpec [Some ''x'', None, Some ''y''] \<and>
   layout demoEmptyItemGame = Some [Some ''x'', Some [], Some ''y'', Some ''z''] \<and>
   length (nonGapItems [Some ''x'', Some [], Some ''y'', Some ''z'']) = 4 \<and>
   previewSpec [Some ''x'', Some [], Some ''y'', Some ''z''] = ''x, , y...'' \<and>
   previewText demoEmptyItemGame = ''x, y, z'' \<and>
   previewText demoEmptyItemGame \<noteq> previewSpec [Some ''x'', Some [], Some ''y'', Some ''z'']"
proof -
  have a: "layout demoSmallGame = Some [Some ''x'', None, Some ''y'']" by code_simp
  have b: "length (nonGapItems [Some ''x'', None, Some ''y'']) = 2" by code_simp
  have c: "previewSpec [Some ''x'', None, Some ''y''] = ''x, y''" by code_simp
  have d: "previewText_part_000 demoSmallGame = ''x, y...''" by code_simp
  have e: "previewText_part_000 demoSmallGame \<noteq> previewSpec [Some ''x'', None, Some ''y'']"
    unfolding c d by simp
  have f: "layout demoEmptyItemGame = Some [Some ''x'', Some [], Some ''y'', Some ''z'']" by code_simp
  have g: "length (nonGapItems [Some ''x'', Some [], Some ''y'', Some ''z'']) = 4" by code_simp
  have h: "previewSpec [Some ''x'', Some [], Some ''y'', Some ''z''] = ''x, , y...''" by code_simp
  have i: "previewText demoEmptyItemGame = ''x, y, z''" by code_simp
  have j: "previewText demoEmptyItemGame \<noteq> previewSpec [Some ''x'', Some [], Some ''y'', Some ''z'']"
    unfolding h i by simp
  show ?thesis by (intro conjI a b c d e f g h i j)
qed

subsection \<open>Validation at session creation\<close>

lemma splitLines_not_Nil: "splitLines s \<noteq> []"
  by (induction s) (simp_all split: list.splits)

lemma isWhiteSpace_newline: "isWhiteSpace (CHR 0x0A)"
  by (simp add: isWhiteSpace_def)

lemma blank_lines_iff:
  "(\<forall>l \<in> set (splitLines s). \<forall>ch \<in> set l. isWhiteSpace ch) \<longleftrightarrow> (\<forall>ch \<in> set s. isWhiteSpace ch)"
proof (induction s)
  case Nil
  then show ?case by simp
next
  case (Cons c cs)
  show ?case
  proof (cases "c = CHR 0x0A")
    case True
    then show ?thesis using Cons isWhiteSpace_newline by simp
  next
    case False
    obtain l ls where sp: "splitLines cs = l # ls"
      using splitLines_not_Nil [of cs] by (cases "splitLines cs") auto
    have "splitLines (c # cs) = (c # l) # ls" using False by (simp add: sp)
    then show ?thesis using Cons by (simp add: sp conj_assoc)
  qed
qed

lemma trim_empty_iff: "trim s = [] \<longleftrightarrow> (\<forall>ch \<in> set s. isWhiteSpace ch)"
  unfolding trim_def
  by (metis dropWhile_eq_Nil_conv set_rev rev_is_Nil_conv dropWhile_idem)

lemma parseItems_empty_iff: "parseItems s = [] \<longleftrightarrow> trim s = []"
proof -
  have "parseItems s = [] \<longleftrightarrow> (\<forall>l \<in> set (splitLines s). trim l = [])"
    by (simp add: parseItems_def filter_empty_conv)
  also have "\<dots> \<longleftrightarrow> (\<forall>l \<in> set (splitLines s). \<forall>ch \<in> set l. isWhiteSpace ch)"
    by (simp only: trim_empty_iff)
  also have "\<dots> \<longleftrightarrow> trim s = []"
    by (simp only: blank_lines_iff trim_empty_iff)
  finally show ?thesis .
qed

text \<open>
  Claim C9, as the code has it. For every input whose count of non-blank lines is outside
  \<open>[10, 20]\<close>, session creation stops before the layout generator: no random number is drawn, the
  store is returned unchanged, and the client state is unchanged but for the alert. The message
  "Please enter between 10 and 20 items." is shown to the initiating client exactly when the
  input has at least one non-blank line; an input with no non-blank line at all is dropped
  silently by the guard on the trimmed input, with no message.
\<close>

theorem handleCreateGame_rejects_out_of_range:
  assumes "length (parseItems (inputList c)) < 10 \<or> 20 < length (parseItems (inputList c))"
  shows "handleCreateGame rnd toString36 now writeOk c s k =
           (if parseItems (inputList c) = [] then (c, s, k)
            else (c\<lparr>alerts := alerts c @ [''Please enter between 10 and 20 items.'']\<rparr>, s, k))"
proof (cases "trim (inputList c) = []")
  case True
  then have "parseItems (inputList c) = []" by (simp only: parseItems_empty_iff)
  then show ?thesis using True by (simp add: handleCreateGame_def)
next
  case False
  then have "parseItems (inputList c) \<noteq> []" by (simp only: parseItems_empty_iff not_False_eq_True)
  then show ?thesis using False assms by (auto simp add: handleCreateGame_def Let_def)
qed

theorem handleCreateGame_rejects_out_of_range_witness:
  "(length (parseItems (inputList demoShortClient)) < 10 \<or>
    20 < length (parseItems (inputList demoShortClient))) \<and>
   parseItems (inputList demoShortClient) = [''a'', ''b''] \<and>
   handleCreateGame (\<lambda>k. 1 / 2) (\<lambda>r. ''0.abcdefghijk'') 1000 True demoShortClient demoStore 0 =
     (demoShortClient\<lparr>alerts := alerts demoShortClient @ [''Please enter between 10 and 20 items.'']\<rparr>,
      demoStore, 0)"
proof -
  have h: "length (parseItems (inputList demoShortClient)) < 10 \<or>
    20 < length (parseItems (inputList demoShortClient))"
    by code_simp
  have items: "parseItems (inputList demoShortClient) = [''a'', ''b'']" by code_simp
  have run: "handleCreateGame (\<lambda>k. 1 / 2) (\<lambda>r. ''0.abcdefghijk'') 1000 True demoShortClient demoStore 0 =
     (demoShortClient\<lparr>alerts := alerts demoShortClient @ [''Please enter between 10 and 20 items.'']\<rparr>,
      demoStore, 0)"
    using handleCreateGame_rejects_out_of_range
      [OF h, of "\<lambda>k. 1 / 2" "\<lambda>r. ''0.abcdefghijk''" 1000 True demoStore 0]
    by (simp add: items)
  show ?thesis by (intro conjI h items run)
qed

text \<open>
  Claim C9 as stated also promises the validation error for an input without any non-blank
  line. There the call returns the state as it was: the count is 0, outside \<open>[10, 20]\<close>, and
  no message is shown.
\<close>

theorem handleCreateGame_blank_input_counterexample:
  "length (parseItems (inputList demoBlankClient)) = 0 \<and>
   handleCreateGame (\<lambda>k. 1 / 2) (\<lambda>r. ''0.abcdefghijk'') 1000 True demoBlankClient demoStore 0 =
     (demoBlankClient, demoStore, 0) \<and>
   alerts demoBlankClient = [] \<and>
   handleCreateGame (\<lambda>k. 1 / 2) (\<lambda>r. ''0.abcdefghijk'') 1000 True demoBlankClient demoStore 0 \<noteq>
     (demoBlankClient\<lparr>alerts := alerts demoBlankClient @ [''Please enter between 10 and 20 items.'']\<rparr>,
      demoStore, 0)"
proof -
  have n: "length (parseItems (inputList demoBlankClient)) = 0" by code_simp
  have run: "handleCreateGame (\<lambda>k. 1 / 2) (\<lambda>r. ''0.abcdefghijk'') 1000 True demoBlankClient demoStore 0 =
     (demoBlankClient, demoStore, 0)"
    by code_simp
  have a: "alerts demoBlankClient = []" by code_simp
  have "alerts (demoBlankClient\<lparr>alerts := alerts demoBlankClient @ [''Please enter between 10 and 20 items.'']\<rparr>)
      \<noteq> alerts demoBlankClient"
    by (simp add: a)
  then have ne: "demoBlankClient \<noteq>
      demoBlankClient\<lparr>alerts := alerts demoBlankClient @ [''Please enter between 10 and 20 items.'']\<rparr>"
    by metis
  show ?thesis using n run a ne by simp
qed

text \<open>
  The copy of \<open>handleCreateGame\<close> in \<open>src/unnamed/part_000\<close> treats an input outside the range
  as the one above does.
\<close>

lemma handleCreateGame_part_000_rejects_alike:
  assumes "length (parseItems (inputList c)) < 10 \<or> 20 < length (parseItems (inputList c))"
  shows "handleCreateGame_part_000 rnd toString36 now writeOk c s k =
           handleCreateGame rnd toString36 now writeOk c s k"
  using assms by (auto simp add: handleCreateGame_def handleCreateGame_part_000_def Let_def)

end
